theory Spec2Isabelle
  imports Complex_Main "HOL-Library.Product_Lexorder"
begin

section \<open>Errors\<close>

text \<open>
  Every Python exception the embedded code can raise is a value. Floats are embedded as
  reals: rounding is abstracted, and the one place where numpy would produce a nan
  (the mean of an empty list) is the value \<open>NanResult\<close>.
\<close>

datatype error =
    AssertionError
  | IndexError
  | ZeroDivisionError
  | TypeError
  | NotImplementedError
  | RuntimeError
  | NanResult

section \<open>common/utils.py\<close>

text \<open>
  \<^verbatim>\<open>def pcc_aurora_reward(throughput, delay, loss, avg_bw=None, min_rtt=None)\<close>:
  the assertion on \<open>avg_bw\<close>, then \<open>10 * 50 * throughput/avg_bw - 1000 * delay - 2000 * loss\<close>.
  Python parses the first term as \<open>((10 * 50) * throughput) / avg_bw\<close>; a float division
  by zero raises.
\<close>

definition pcc_aurora_reward ::
  "real \<Rightarrow> real \<Rightarrow> real \<Rightarrow> real option \<Rightarrow> real option \<Rightarrow> error + real" where
  "pcc_aurora_reward throughput delay loss avg_bw min_rtt_arg =
     (case avg_bw of
        None \<Rightarrow> Inl AssertionError
      | Some bw \<Rightarrow>
          if bw = 0 then Inl ZeroDivisionError
          else Inr (10 * 50 * throughput / bw - 1000 * delay - 2000 * loss))"

section \<open>simulator/trace.py\<close>

record trace =
  timestamps :: "real list"
  bandwidths :: "real list"
  delays :: "real list"
  loss_rate :: real
  queue_size :: int
  ack_delay_prob :: real
  idx :: nat

text \<open>\<^verbatim>\<open>Trace.__init__\<close>: one assertion, on the lengths of timestamps and bandwidths.\<close>

definition Trace_init ::
  "real list \<Rightarrow> real list \<Rightarrow> real list \<Rightarrow> real \<Rightarrow> int \<Rightarrow> error + trace" where
  "Trace_init ts bws ds lr qs =
     (if length ts = length bws
      then Inr \<lparr>timestamps = ts, bandwidths = bws, delays = ds, loss_rate = lr,
                queue_size = qs, ack_delay_prob = 0, idx = 0\<rparr>
      else Inl AssertionError)"

text \<open>
  \<^verbatim>\<open>get_delay\<close>: the cursor moves forward while the next breakpoint is not after \<open>ts\<close>;
  past the end of delays the last delay is returned, and \<open>delays[-1]\<close> of an empty list
  raises.
\<close>

function advance_idx :: "real list \<Rightarrow> real \<Rightarrow> nat \<Rightarrow> nat" where
  "advance_idx tss ts i =
     (if i + 1 < length tss \<and> tss ! (i + 1) \<le> ts then advance_idx tss ts (i + 1) else i)"
  by pat_completeness auto
termination
  by (relation "measure (\<lambda>(tss, ts, i). length tss - i)") auto

definition get_delay :: "trace \<Rightarrow> real \<Rightarrow> error + (real \<times> trace)" where
  "get_delay tr ts =
     (let tr' = tr\<lparr>idx := advance_idx (timestamps tr) ts (idx tr)\<rparr> in
      if idx tr' \<ge> length (delays tr') then
        (if delays tr' = [] then Inl IndexError else Inr (last (delays tr'), tr'))
      else Inr (delays tr' ! idx tr', tr'))"

definition is_finished :: "trace \<Rightarrow> real \<Rightarrow> error + bool" where
  "is_finished tr ts =
     (if timestamps tr = [] then Inl IndexError else Inr (ts \<ge> last (timestamps tr)))"

definition trace_reset :: "trace \<Rightarrow> trace" where
  "trace_reset tr = tr\<lparr>idx := 0\<rparr>"

section \<open>simulator/constants.py\<close>

text \<open>
  The constants module is not among the sources: its values are parameters. The two
  event-type constants are compared by Python when two heap entries agree on time (and
  sender); which of them is the smaller is the parameter \<open>ACK_before_SEND\<close>.
\<close>

record constants =
  BYTES_PER_PACKET :: int
  MI_RTT_PROPORTION :: real
  MIN_RATE :: real
  MAX_RATE :: real
  REWARD_SCALE :: real
  ACK_before_SEND :: bool

datatype event_type = EVENT_TYPE_ACK | EVENT_TYPE_SEND

section \<open>Events and the event queue\<close>

text \<open>
  A heap entry is the tuple \<^verbatim>\<open>(event_time, sender, event_type, next_hop, cur_latency,
  dropped, event_id, rto, event_queue_delay)\<close>. The environment builds one sender, so the
  sender component is the same object in every entry and compares equal; it is left out.
\<close>

record event =
  event_time :: real
  event_type :: event_type
  next_hop :: nat
  cur_latency :: real
  dropped :: bool
  event_id :: nat
  event_rto :: real
  event_queue_delay :: real

definition event_type_lt :: "constants \<Rightarrow> event_type \<Rightarrow> event_type \<Rightarrow> bool" where
  "event_type_lt C a b =
     (a \<noteq> b \<and> (if ACK_before_SEND C then a = EVENT_TYPE_ACK else a = EVENT_TYPE_SEND))"

text \<open>
  Python's \<open><\<close> on tuples: the first component where the two differ decides
  (\<open>False < True\<close> on the dropped flag).
\<close>

definition event_lt :: "constants \<Rightarrow> event \<Rightarrow> event \<Rightarrow> bool" where
  "event_lt C a b =
     (if event_time a \<noteq> event_time b then event_time a < event_time b
      else if event_type a \<noteq> event_type b then event_type_lt C (event_type a) (event_type b)
      else if next_hop a \<noteq> next_hop b then next_hop a < next_hop b
      else if cur_latency a \<noteq> cur_latency b then cur_latency a < cur_latency b
      else if dropped a \<noteq> dropped b then \<not> dropped a
      else if event_id a \<noteq> event_id b then event_id a < event_id b
      else if event_rto a \<noteq> event_rto b then event_rto a < event_rto b
      else event_queue_delay a < event_queue_delay b)"

text \<open>
  \<open>heapq\<close> is embedded by its contract: the queue is kept as the list of its entries in
  ascending order, \<open>q[0]\<close> is the head, \<open>heappush\<close> inserts in order and \<open>heappop\<close>
  removes the head (IndexError on an empty heap).
\<close>

fun heappush :: "constants \<Rightarrow> event list \<Rightarrow> event \<Rightarrow> event list" where
  "heappush C [] e = [e]"
| "heappush C (x # xs) e = (if event_lt C e x then e # x # xs else x # heappush C xs e)"

definition heappop :: "event list \<Rightarrow> error + (event \<times> event list)" where
  "heappop es = (case es of [] \<Rightarrow> Inl IndexError | e # es' \<Rightarrow> Inr (e, es'))"

section \<open>common/sender_obs.py\<close>

text \<open>
  The module is not among the sources. A monitor interval is the record of the keyword
  arguments \<open>get_run_data\<close> passes to \<open>SenderMonitorInterval\<close>. What a fresh
  \<open>SenderHistory\<close> holds, the derived values \<open>get(name)\<close> and the feature vector of
  one interval are parameters.
\<close>

record monitor_interval =
  mi_sender_id :: nat
  bytes_sent :: int
  bytes_acked :: int
  bytes_lost :: int
  send_start :: real
  send_end :: real
  recv_start :: real
  recv_end :: real
  mi_rtt_samples :: "real list"
  mi_queue_delay_samples :: "real list"
  packet_size :: int

record sender_obs =
  SenderHistory :: "nat \<Rightarrow> string list \<Rightarrow> nat \<Rightarrow> monitor_interval list"
  mi_get :: "string \<Rightarrow> monitor_interval \<Rightarrow> real"
  mi_as_array :: "string list \<Rightarrow> monitor_interval \<Rightarrow> real list"

text \<open>
  Modelled from the spec: \<open>SenderHistory.step\<close>, \<open>back\<close> and \<open>as_array\<close>, which are
  missing. The history retains at most \<open>history_len\<close> most recent intervals, the oldest
  evicted; \<open>back()\<close> returns the most recently finalized interval and fails on an empty
  history; \<open>as_array()\<close> flattens the feature vectors of the retained intervals in
  chronological order, zero-padded in front when fewer than \<open>history_len\<close> exist.
\<close>

definition history_step :: "nat \<Rightarrow> monitor_interval list \<Rightarrow> monitor_interval \<Rightarrow> monitor_interval list" where
  "history_step hlen h new_mi = (let h' = h @ [new_mi] in drop (length h' - hlen) h')"

definition history_back :: "monitor_interval list \<Rightarrow> error + monitor_interval" where
  "history_back h = (if h = [] then Inl IndexError else Inr (last h))"

definition history_as_array ::
  "sender_obs \<Rightarrow> nat \<Rightarrow> string list \<Rightarrow> monitor_interval list \<Rightarrow> real list" where
  "history_as_array F hlen feats h =
     (let kept = drop (length h - hlen) h in
      replicate ((hlen - length kept) * length feats) 0 @ concat (map (mi_as_array F feats) kept))"

section \<open>simulator/link.py\<close>

text \<open>
  The module is not among the sources. The links of the path, the trace cursor they share
  and the random state they draw from are one opaque value of type \<open>'w\<close>; the methods
  the engine calls are parameters that take the index of the link in \<open>Network.links\<close>,
  the simulation time and that value, and return their result with the new value.
\<close>

record 'w link_ops =
  get_cur_queue_delay :: "nat \<Rightarrow> real \<Rightarrow> 'w \<Rightarrow> real \<times> 'w"
  get_cur_latency :: "nat \<Rightarrow> real \<Rightarrow> 'w \<Rightarrow> real \<times> 'w"
  packet_enters_link :: "nat \<Rightarrow> real \<Rightarrow> 'w \<Rightarrow> bool \<times> 'w"
  get_bandwidth :: "nat \<Rightarrow> real \<Rightarrow> 'w \<Rightarrow> real \<times> 'w"
  link_reset :: "'w \<Rightarrow> 'w"

section \<open>simulator/network.py: Sender\<close>

text \<open>
  The fields of \<open>Sender\<close>. \<open>path\<close> holds the indices of the sender's links in
  \<open>Network.links\<close>. \<open>obs_start_time\<close> is created by \<open>reset_obs\<close>, which
  \<open>Network.__init__\<close> calls before anything reads it. The reference \<open>net\<close> is only
  used for \<open>net.get_cur_time()\<close>: the methods that read it take the time as an argument.
  \<open>rtt_samples\<close> and \<open>prev_rtt_samples\<close> name the same empty list only between
  \<open>__init__\<close> and the first \<open>reset_obs\<close>, when nothing is appended, so lists are values.
\<close>

record sender =
  sender_id :: nat
  delta_scale :: real
  starting_rate :: real
  rate :: real
  sent :: int
  acked :: int
  lost :: int
  bytes_in_flight :: int
  min_latency :: "real option"
  rtt_samples :: "real list"
  rtt_samples_ts :: "real list"
  queue_delay_samples :: "real list"
  prev_rtt_samples :: "real list"
  sample_time :: "real list"
  path :: "nat list"
  dest :: nat
  history_len :: nat
  features :: "string list"
  history :: "monitor_interval list"
  cwnd :: int
  use_cwnd :: bool
  rto :: real
  ssthresh :: real
  pkt_loss_wait_time :: real
  estRTT :: real
  RTTVar :: real
  got_data :: bool
  min_rtt :: real
  max_tput :: real
  start_stage :: bool
  lat_diff :: real
  recv_rate :: real
  send_rate :: real
  avg_latency :: real
  latest_rtt :: real
  obs_start_time :: real

definition Sender_init ::
  "sender_obs \<Rightarrow> nat \<Rightarrow> real \<Rightarrow> nat list \<Rightarrow> nat \<Rightarrow> string list \<Rightarrow> int \<Rightarrow> nat \<Rightarrow> real \<Rightarrow> sender" where
  "Sender_init F sid r pth dst feats cw hlen dscale =
     \<lparr>sender_id = sid, delta_scale = dscale, starting_rate = r, rate = r,
      sent = 0, acked = 0, lost = 0, bytes_in_flight = 0, min_latency = None,
      rtt_samples = [], rtt_samples_ts = [], queue_delay_samples = [],
      prev_rtt_samples = [], sample_time = [], path = pth, dest = dst,
      history_len = hlen, features = feats, history = SenderHistory F hlen feats sid,
      cwnd = cw, use_cwnd = False, rto = - 1, ssthresh = 0, pkt_loss_wait_time = - 1,
      estRTT = 1000000 / 1000000, RTTVar = (1000000 / 1000000) / 2, got_data = False,
      min_rtt = 10, max_tput = 0, start_stage = True, lat_diff = 0, recv_rate = 0,
      send_rate = 0, avg_latency = 0, latest_rtt = 0, obs_start_time = 0\<rparr>"

definition set_rate :: "constants \<Rightarrow> real \<Rightarrow> sender \<Rightarrow> sender" where
  "set_rate C new_rate s =
     (let s1 = s\<lparr>rate := new_rate\<rparr>;
          s2 = (if rate s1 > MAX_RATE C then s1\<lparr>rate := MAX_RATE C\<rparr> else s1)
      in if rate s2 < MIN_RATE C then s2\<lparr>rate := MIN_RATE C\<rparr> else s2)"

text \<open>Python's \<open>int(x)\<close> on a float truncates towards zero.\<close>

definition py_int :: "real \<Rightarrow> int" where
  "py_int x = (if x \<ge> 0 then \<lfloor>x\<rfloor> else \<lceil>x\<rceil>)"

definition set_cwnd :: "real \<Rightarrow> sender \<Rightarrow> sender" where
  "set_cwnd new_cwnd s = s\<lparr>cwnd := py_int new_cwnd\<rparr>"

definition apply_rate_delta :: "constants \<Rightarrow> real \<Rightarrow> sender \<Rightarrow> sender" where
  "apply_rate_delta C delta0 s =
     (let delta = delta0 * delta_scale s in
      if delta \<ge> 0 then set_rate C (rate s * (1 + delta)) s
      else set_rate C (rate s / (1 - delta)) s)"

definition apply_cwnd_delta :: "real \<Rightarrow> sender \<Rightarrow> sender" where
  "apply_cwnd_delta delta0 s =
     (let delta = delta0 * delta_scale s in
      if delta \<ge> 0 then set_cwnd (of_int (cwnd s) * (1 + delta)) s
      else set_cwnd (of_int (cwnd s) / (1 - delta)) s)"

definition can_send_packet :: "constants \<Rightarrow> sender \<Rightarrow> error + bool" where
  "can_send_packet C s =
     (if use_cwnd s then
        (if BYTES_PER_PACKET C = 0 then Inl ZeroDivisionError
         else Inr (real_of_int (bytes_in_flight s) / real_of_int (BYTES_PER_PACKET C)
                     < real_of_int (cwnd s)))
      else Inr True)"

definition on_packet_sent :: "constants \<Rightarrow> sender \<Rightarrow> sender" where
  "on_packet_sent C s =
     s\<lparr>sent := sent s + 1, bytes_in_flight := bytes_in_flight s + BYTES_PER_PACKET C\<rparr>"

definition on_packet_acked :: "constants \<Rightarrow> real \<Rightarrow> real \<Rightarrow> sender \<Rightarrow> sender" where
  "on_packet_acked C now rtt s =
     (let est = (7 * estRTT s + rtt) / 8;
          samples = rtt_samples s @ [rtt]
      in s\<lparr>min_rtt := min (min_rtt s) rtt,
            estRTT := est,
            RTTVar := (RTTVar s * 7 + \<bar>rtt - est\<bar> * 1) / 8,
            acked := acked s + 1,
            rtt_samples := samples,
            rtt_samples_ts := rtt_samples_ts s @ [now],
            min_latency := (case min_latency s of
                              None \<Rightarrow> Some rtt
                            | Some m \<Rightarrow> if rtt < m then Some rtt else Some m),
            bytes_in_flight := bytes_in_flight s - BYTES_PER_PACKET C,
            got_data := (if \<not> got_data s then length samples \<ge> 1 else got_data s)\<rparr>)"

definition on_packet_lost :: "constants \<Rightarrow> real \<Rightarrow> sender \<Rightarrow> sender" where
  "on_packet_lost C rtt s =
     s\<lparr>lost := lost s + 1, bytes_in_flight := bytes_in_flight s - BYTES_PER_PACKET C\<rparr>"

text \<open>\<open>timeout\<close> is a placeholder: its body is \<open>pass\<close>.\<close>

definition timeout :: "sender \<Rightarrow> sender" where
  "timeout s = s"

definition reset_obs :: "real \<Rightarrow> sender \<Rightarrow> sender" where
  "reset_obs now s =
     s\<lparr>sent := 0, acked := 0, lost := 0,
       prev_rtt_samples := (if rtt_samples s \<noteq> [] then rtt_samples s else prev_rtt_samples s),
       rtt_samples := [], rtt_samples_ts := [], queue_delay_samples := [],
       obs_start_time := now\<rparr>"

definition np_mean :: "real list \<Rightarrow> real" where
  "np_mean xs = sum_list xs / real (length xs)"

text \<open>
  \<open>get_run_data\<close>. \<open>history.back()\<close> is evaluated only when the interval has an RTT
  sample; \<open>rtt_samples_ts[0]\<close> raises on an interval without one.
\<close>

definition get_run_data :: "constants \<Rightarrow> real \<Rightarrow> sender \<Rightarrow> error + monitor_interval" where
  "get_run_data C now s =
     (let obs_end_time = now;
          samples = (if rtt_samples s = [] \<and> prev_rtt_samples s \<noteq> []
                     then [np_mean (prev_rtt_samples s)] else rtt_samples s);
          start_or_err = (if length (rtt_samples s) \<ge> 1
                          then (case history_back (history s) of
                                  Inl err \<Rightarrow> Inl err
                                | Inr m \<Rightarrow> Inr (recv_end m))
                          else Inr (obs_start_time s))
      in case start_or_err of
           Inl err \<Rightarrow> Inl err
         | Inr rstart \<Rightarrow>
             let rend = (if length (rtt_samples s) \<ge> 1 then last (rtt_samples_ts s)
                         else obs_end_time);
                 mi = \<lparr>mi_sender_id = sender_id s,
                       bytes_sent = sent s * BYTES_PER_PACKET C,
                       bytes_acked = acked s * BYTES_PER_PACKET C,
                       bytes_lost = lost s * BYTES_PER_PACKET C,
                       send_start = obs_start_time s,
                       send_end = obs_end_time,
                       recv_start = rstart,
                       recv_end = rend,
                       mi_rtt_samples = samples,
                       mi_queue_delay_samples = queue_delay_samples s,
                       packet_size = BYTES_PER_PACKET C\<rparr>
             in if rstart = 0 then
                  (if rtt_samples_ts s = [] then Inl IndexError
                   else Inr (mi\<lparr>recv_start := hd (rtt_samples_ts s),
                                 bytes_acked := (acked s - 1) * BYTES_PER_PACKET C\<rparr>))
                else Inr mi)"

definition record_run :: "constants \<Rightarrow> real \<Rightarrow> sender \<Rightarrow> error + sender" where
  "record_run C now s =
     (case get_run_data C now s of
        Inl err \<Rightarrow> Inl err
      | Inr smi \<Rightarrow> Inr (s\<lparr>history := history_step (history_len s) (history s) smi\<rparr>))"

definition get_obs :: "sender_obs \<Rightarrow> sender \<Rightarrow> real list" where
  "get_obs F s = history_as_array F (history_len s) (features s) (history s)"

definition sender_reset :: "sender_obs \<Rightarrow> real \<Rightarrow> sender \<Rightarrow> sender" where
  "sender_reset F now s =
     (let s1 = reset_obs now (s\<lparr>rate := starting_rate s, bytes_in_flight := 0,
                                 min_latency := None\<rparr>)
      in s1\<lparr>history := SenderHistory F (history_len s) (features s) (sender_id s),
            estRTT := 1000000 / 1000000, RTTVar := (1000000 / 1000000) / 2,
            got_data := False, min_rtt := 10, max_tput := 0, start_stage := True,
            lat_diff := 0, recv_rate := 0, send_rate := 0, avg_latency := 0,
            latest_rtt := 0\<rparr>)"

section \<open>simulator/network.py: Network\<close>

text \<open>
  \<open>Network.senders\<close> is the one-element list the environment builds; \<open>sender0\<close> is
  its element. \<open>links\<close> is the state of all links. The packet log, which the engine
  only appends to when \<open>train_flag\<close> is off and never reads, is left out.
\<close>

record 'w network =
  event_count :: nat
  q :: "event list"
  cur_time :: real
  sender0 :: sender
  links :: 'w
  recv_rate_cache :: "real list"

definition initial_send_event :: "nat \<Rightarrow> real \<Rightarrow> event" where
  "initial_send_event cnt r =
     \<lparr>event_time = 0, event_type = EVENT_TYPE_SEND, next_hop = 0, cur_latency = 0,
      dropped = False, event_id = cnt, event_rto = r, event_queue_delay = 0\<rparr>"

definition queue_initial_packets :: "constants \<Rightarrow> 'w network \<Rightarrow> 'w network" where
  "queue_initial_packets C n =
     (let s = reset_obs (cur_time n) (sender0 n) in
      n\<lparr>sender0 := s,
        q := heappush C (q n) (initial_send_event (event_count n) (rto s)),
        event_count := event_count n + 1\<rparr>)"

definition Network_init :: "constants \<Rightarrow> sender \<Rightarrow> 'w \<Rightarrow> 'w network" where
  "Network_init C s w =
     queue_initial_packets C
       \<lparr>event_count = 0, q = [], cur_time = 0, sender0 = s, links = w,
        recv_rate_cache = []\<rparr>"

definition Network_reset :: "constants \<Rightarrow> 'w link_ops \<Rightarrow> sender_obs \<Rightarrow> 'w network \<Rightarrow> 'w network" where
  "Network_reset C L F n =
     (let n1 = n\<lparr>cur_time := 0, q := [], links := link_reset L (links n)\<rparr>;
          n2 = n1\<lparr>sender0 := sender_reset F (cur_time n1) (sender0 n1)\<rparr>;
          n3 = queue_initial_packets C n2
      in n3\<lparr>recv_rate_cache := []\<rparr>)"

text \<open>
  An ACK event whose \<open>next_hop\<close> is the length of the path has returned to the sender.
  The \<open>if\<close>/\<open>elif\<close>/\<open>else\<close> there chooses the one sender method that is called.
\<close>

datatype sender_call =
    Call_timeout
  | Call_on_packet_lost real
  | Call_on_packet_acked real

definition returned_call :: "sender \<Rightarrow> event \<Rightarrow> sender_call" where
  "returned_call s e =
     (if event_rto e \<ge> 0 \<and> cur_latency e > event_rto e \<and> pkt_loss_wait_time s \<le> 0
      then Call_timeout
      else if dropped e then Call_on_packet_lost (cur_latency e)
      else Call_on_packet_acked (cur_latency e))"

fun invoke :: "constants \<Rightarrow> real \<Rightarrow> sender_call \<Rightarrow> sender \<Rightarrow> sender" where
  "invoke C now Call_timeout s = timeout s"
| "invoke C now (Call_on_packet_lost rtt) s = on_packet_lost C rtt s"
| "invoke C now (Call_on_packet_acked rtt) s = on_packet_acked C now rtt s"

definition path_link :: "sender \<Rightarrow> nat \<Rightarrow> error + nat" where
  "path_link s hop = (if hop < length (path s) then Inr (path s ! hop) else Inl IndexError)"

text \<open>The branch \<open>event_type == EVENT_TYPE_ACK\<close>; \<open>n\<close> is the network after the pop.\<close>

definition dispatch_ack :: "constants \<Rightarrow> 'w link_ops \<Rightarrow> event \<Rightarrow> 'w network \<Rightarrow> error + 'w network" where
  "dispatch_ack C L e n =
     (let s = sender0 n in
      if next_hop e = length (path s) then
        Inr (n\<lparr>sender0 := invoke C (cur_time n) (returned_call s e) s\<rparr>)
      else
        (case path_link s (next_hop e) of
           Inl err \<Rightarrow> Inl err
         | Inr l \<Rightarrow>
             let (qd, w1) = get_cur_queue_delay L l (cur_time n) (links n);
                 (link_latency, w2) = get_cur_latency L l (cur_time n) w1;
                 new_event = \<lparr>event_time = event_time e + link_latency,
                              event_type = event_type e,
                              next_hop = next_hop e + 1,
                              cur_latency = cur_latency e + link_latency,
                              dropped = dropped e,
                              event_id = event_id e,
                              event_rto = event_rto e,
                              event_queue_delay = event_queue_delay e + qd\<rparr>
             in Inr (n\<lparr>links := w2, q := heappush C (q n) new_event\<rparr>)))"

text \<open>
  The first part of the branch \<open>event_type == EVENT_TYPE_SEND\<close>: at hop 0 the sender
  may record the packet as sent, and the next SEND event is pushed; the result carries
  \<open>push_new_event\<close>.
\<close>

definition next_send_event :: "'w network \<Rightarrow> event" where
  "next_send_event n =
     \<lparr>event_time = cur_time n + 1 / rate (sender0 n), event_type = EVENT_TYPE_SEND,
      next_hop = 0, cur_latency = 0, dropped = False, event_id = event_count n,
      event_rto = rto (sender0 n), event_queue_delay = 0\<rparr>"

definition send_at_hop :: "constants \<Rightarrow> event \<Rightarrow> 'w network \<Rightarrow> error + ('w network \<times> bool)" where
  "send_at_hop C e n =
     (if next_hop e = 0 then
        (case can_send_packet C (sender0 n) of
           Inl err \<Rightarrow> Inl err
         | Inr can \<Rightarrow>
             let n1 = (if can then n\<lparr>sender0 := on_packet_sent C (sender0 n)\<rparr> else n) in
             if rate (sender0 n1) = 0 then Inl ZeroDivisionError
             else Inr (n1\<lparr>q := heappush C (q n1) (next_send_event n1),
                          event_count := event_count n1 + 1\<rparr>, can))
      else Inr (n, True))"

definition dispatch_send ::
  "constants \<Rightarrow> 'w link_ops \<Rightarrow> event \<Rightarrow> 'w network \<Rightarrow> real list \<Rightarrow> error + ('w network \<times> real list)" where
  "dispatch_send C L e n extra_delays =
     (case send_at_hop C e n of
        Inl err \<Rightarrow> Inl err
      | Inr (n1, push_new_event) \<Rightarrow>
          (case path_link (sender0 n1) (next_hop e) of
             Inl err \<Rightarrow> Inl err
           | Inr l \<Rightarrow>
               let new_event_type = (if next_hop e = dest (sender0 n1) then EVENT_TYPE_ACK
                                     else event_type e);
                   (qd, w1) = get_cur_queue_delay L l (cur_time n1) (links n1);
                   (link_latency, w2) = get_cur_latency L l (cur_time n1) w1;
                   (entered, w3) = packet_enters_link L l (cur_time n1) w2;
                   (bw, w4) = get_bandwidth L 0 (cur_time n1) w3;
                   new_event = \<lparr>event_time = event_time e + link_latency,
                                event_type = new_event_type,
                                next_hop = next_hop e + 1,
                                cur_latency = cur_latency e + link_latency,
                                dropped = \<not> entered,
                                event_id = event_id e,
                                event_rto = event_rto e,
                                event_queue_delay = event_queue_delay e + qd\<rparr>
               in if bw = 0 then Inl ZeroDivisionError
                  else
                    let s = sender0 n1;
                        s1 = (if entered
                              then s\<lparr>queue_delay_samples :=
                                       queue_delay_samples s @ [event_queue_delay new_event]\<rparr>
                              else s);
                        n2 = n1\<lparr>links := w4, sender0 := s1\<rparr>;
                        n3 = (if push_new_event then n2\<lparr>q := heappush C (q n2) new_event\<rparr>
                              else n2)
                    in Inr (n3, extra_delays @ [1 / bw])))"

text \<open>One pass through the body of the \<open>while\<close> loop after the break test.\<close>

definition dispatch ::
  "constants \<Rightarrow> 'w link_ops \<Rightarrow> 'w network \<Rightarrow> real list \<Rightarrow> error + ('w network \<times> real list)" where
  "dispatch C L n extra_delays =
     (case heappop (q n) of
        Inl err \<Rightarrow> Inl err
      | Inr (e, es) \<Rightarrow>
          let n1 = n\<lparr>q := es, cur_time := event_time e\<rparr> in
          if event_type e = EVENT_TYPE_ACK then
            (case dispatch_ack C L e n1 of
               Inl err \<Rightarrow> Inl err
             | Inr n2 \<Rightarrow> Inr (n2, extra_delays))
          else dispatch_send C L e n1 extra_delays)"

definition loop_break :: "'w network \<Rightarrow> real \<Rightarrow> event \<Rightarrow> bool" where
  "loop_break n end_time e =
     (got_data (sender0 n) \<and> event_time e \<ge> end_time \<and> event_type e = EVENT_TYPE_SEND)"

text \<open>
  The \<open>while True\<close> loop of \<open>run_for_dur\<close>, with fuel: \<open>None\<close> when the fuel runs out.
  The third component of the result is the list of the events dispatched, in order.
\<close>

fun run_loop ::
  "nat \<Rightarrow> constants \<Rightarrow> 'w link_ops \<Rightarrow> real \<Rightarrow> 'w network \<Rightarrow> real list \<Rightarrow> event list
     \<Rightarrow> (error + ('w network \<times> real list \<times> event list)) option" where
  "run_loop 0 C L end_time n extra_delays done = None"
| "run_loop (Suc k) C L end_time n extra_delays done =
     (case q n of
        [] \<Rightarrow> Some (Inl IndexError)
      | e # es \<Rightarrow>
          if loop_break n end_time e
          then Some (Inr (n\<lparr>cur_time := event_time e\<rparr>, extra_delays, done))
          else (case dispatch C L n extra_delays of
                  Inl err \<Rightarrow> Some (Inl err)
                | Inr (n', extra_delays') \<Rightarrow>
                    run_loop k C L end_time n' extra_delays' (done @ [e])))"

text \<open>
  Python's \<open>round(x, 3)\<close>, on the exact value: to the nearest multiple of 1/1000, a tie
  to the even one.
\<close>

definition py_round3 :: "real \<Rightarrow> real" where
  "py_round3 x =
     (let y = x * 1000; f = \<lfloor>y\<rfloor>; d = y - of_int f
      in of_int (if d < 1 / 2 then f else if d > 1 / 2 then f + 1
                 else if even f then f else f + 1) / 1000)"

definition py_max :: "real list \<Rightarrow> real" where
  "py_max xs = fold max (tl xs) (hd xs)"

section \<open>simulator/network.py: SimulatedNetworkEnv and run_for_dur\<close>

text \<open>
  The fields of the environment that the engine and \<open>reset\<close>/\<open>step\<close> use. Its
  \<open>senders\<close> and \<open>links\<close> are the objects of its network. \<open>next_sender_id\<close> is the
  class counter \<open>Sender._next_id\<close>. The random choice of a trace and the state of the
  links built from it are arguments of the operations that make them.
\<close>

record 'w env =
  current_trace :: trace
  train_flag :: bool
  congestion_control_type :: string
  env_history_len :: nat
  env_features :: "string list"
  env_delta_scale :: real
  net :: "'w network"
  run_dur :: "real option"
  steps_taken :: nat
  reward_sum :: real
  reward_ewma :: real
  episodes_run :: int
  next_sender_id :: nat

text \<open>
  The part of \<open>run_for_dur\<close> after the loop, on the network \<open>n\<close> the loop left and its
  list \<open>extra_delays\<close>. \<open>np.mean\<close> of an empty list is a nan, here \<open>NanResult\<close>; the
  mean of the delays is only passed as the argument the reward never reads.
\<close>

definition finish_run ::
  "constants \<Rightarrow> sender_obs \<Rightarrow> 'w env \<Rightarrow> 'w network \<Rightarrow> real list \<Rightarrow> error + (real \<times> 'w env)" where
  "finish_run C F E n extra_delays =
     (case record_run C (cur_time n) (sender0 n) of
        Inl err \<Rightarrow> Inl err
      | Inr s1 \<Rightarrow>
     (case history_back (history s1) of
        Inl err \<Rightarrow> Inl err
      | Inr sender_mi \<Rightarrow>
          let throughput = mi_get F ''recv rate'' sender_mi;
              latency = mi_get F ''avg latency'' sender_mi;
              loss = mi_get F ''loss ratio'' sender_mi;
              bpp = real_of_int (BYTES_PER_PACKET C);
              tr = current_trace E
          in if bpp = 0 then Inl ZeroDivisionError
             else if bandwidths tr = [] then Inl NanResult
             else
               (case pcc_aurora_reward (throughput / 8 / bpp) latency loss
                       (Some (np_mean (bandwidths tr) * 1000000 / 8 / bpp))
                       (if delays tr = [] then None
                        else Some (np_mean (delays tr) * 2 / 1000)) of
                  Inl err \<Rightarrow> Inl err
                | Inr reward \<Rightarrow>
                    if latency > 0 \<and> extra_delays = [] then Inl NanResult
                    else if mi_rtt_samples sender_mi = [] then Inl IndexError
                    else
                      let E1 = (if latency > 0
                                then E\<lparr>run_dur := Some (MI_RTT_PROPORTION C
                                                * mi_get F ''avg latency'' sender_mi
                                              + np_mean extra_delays)\<rparr>
                                else E);
                          s2 = s1\<lparr>avg_latency := mi_get F ''avg latency'' sender_mi,
                                  recv_rate := py_round3 (mi_get F ''recv rate'' sender_mi),
                                  send_rate := py_round3 (mi_get F ''send rate'' sender_mi),
                                  lat_diff := last (mi_rtt_samples sender_mi)
                                                - hd (mi_rtt_samples sender_mi),
                                  latest_rtt := last (mi_rtt_samples sender_mi)\<rparr>;
                          cache1 = recv_rate_cache n @ [recv_rate s2];
                          cache2 = (if length cache1 > 6 then tl cache1 else cache1);
                          s3 = s2\<lparr>max_tput := py_max cache2\<rparr>;
                          s4 = (if lat_diff s3 = 0 \<and> start_stage s3 then s3
                                else if lat_diff s3 = 0 \<and> \<not> start_stage s3 then s3
                                else if lat_diff s3 > 0 then s3\<lparr>start_stage := False\<rparr>
                                else s3\<lparr>start_stage := False\<rparr>)
                      in Inr (reward * REWARD_SCALE C,
                              E1\<lparr>net := n\<lparr>sender0 := s4, recv_rate_cache := cache2\<rparr>\<rparr>))))"

text \<open>The part of \<open>run_for_dur\<close> before the loop: the end time and the network the loop starts on.\<close>

definition start_run :: "real \<Rightarrow> 'w env \<Rightarrow> error + (real \<times> 'w network)" where
  "start_run dur E =
     (let n = net E;
          s0 = sender0 n;
          s1 = (if lat_diff s0 \<noteq> 0 then s0\<lparr>start_stage := False\<rparr> else s0)
      in if timestamps (current_trace E) = [] then Inl IndexError
         else Inr (min (cur_time n + dur) (last (timestamps (current_trace E))),
                   n\<lparr>sender0 := reset_obs (cur_time n) s1\<rparr>))"

definition run_for_dur ::
  "nat \<Rightarrow> constants \<Rightarrow> 'w link_ops \<Rightarrow> sender_obs \<Rightarrow> real \<Rightarrow> 'w env
     \<Rightarrow> (error + (real \<times> 'w env)) option" where
  "run_for_dur fuel C L F dur E =
     (case start_run dur E of
        Inl err \<Rightarrow> Some (Inl err)
      | Inr (end_time, n) \<Rightarrow>
          (case run_loop fuel C L end_time n [] [] of
             None \<Rightarrow> None
           | Some (Inl err) \<Rightarrow> Some (Inl err)
           | Some (Inr (n', extra_delays, done)) \<Rightarrow> Some (finish_run C F E n' extra_delays)))"

text \<open>
  \<open>create_new_links_and_senders\<close>: \<open>w\<close> is the state of the two links it builds. It
  returns the new sender and links with the environment.
\<close>

definition create_new_links_and_senders ::
  "sender_obs \<Rightarrow> 'w \<Rightarrow> 'w env \<Rightarrow> error + (sender \<times> 'w \<times> 'w env)" where
  "create_new_links_and_senders F w E =
     (if congestion_control_type E = ''aurora'' then
        (case get_delay (current_trace E) 0 of
           Inl err \<Rightarrow> Inl err
         | Inr (d, tr) \<Rightarrow>
             if d * 2 / 1000 = 0 then Inl ZeroDivisionError
             else
               let s = Sender_init F (next_sender_id E) (10 / (d * 2 / 1000)) [0, 1] 0
                         (env_features E) 25 (env_history_len E) (env_delta_scale E);
                   E1 = E\<lparr>current_trace := tr, next_sender_id := next_sender_id E + 1\<rparr>;
                   E2 = (if rtt_samples s = [] then E1\<lparr>run_dur := Some (1 / 100)\<rparr> else E1)
               in Inr (s, w, E2))
      else if congestion_control_type E = ''cubic'' then Inl NotImplementedError
      else Inl RuntimeError)"

definition get_all_sender_obs :: "sender_obs \<Rightarrow> 'w env \<Rightarrow> real list" where
  "get_all_sender_obs F E = get_obs F (sender0 (net E))"

text \<open>
  \<open>reset\<close>: \<open>tr\<close> is the trace \<open>np.random.choice\<close> returns and \<open>w\<close> the state of the
  links built from it. The result is the observation and the environment.
\<close>

definition env_reset ::
  "nat \<Rightarrow> constants \<Rightarrow> 'w link_ops \<Rightarrow> sender_obs \<Rightarrow> trace \<Rightarrow> 'w \<Rightarrow> 'w env
     \<Rightarrow> (error + (real list \<times> 'w env)) option" where
  "env_reset fuel C L F tr w E =
     (let E1 = E\<lparr>steps_taken := 0, net := Network_reset C L F (net E)\<rparr>;
          E2 = E1\<lparr>current_trace := trace_reset tr\<rparr>
      in case create_new_links_and_senders F w E2 of
           Inl err \<Rightarrow> Some (Inl err)
         | Inr (s, w', E3) \<Rightarrow>
             let E4 = E3\<lparr>net := Network_init C s w', episodes_run := episodes_run E3 + 1\<rparr>
             in (case run_dur E4 of
                   None \<Rightarrow> Some (Inl TypeError)
                 | Some dur \<Rightarrow>
                     (case run_for_dur fuel C L F dur E4 of
                        None \<Rightarrow> None
                      | Some (Inl err) \<Rightarrow> Some (Inl err)
                      | Some (Inr (reward, E5)) \<Rightarrow>
                          let E6 = E5\<lparr>reward_ewma := reward_ewma E5 * (99 / 100)
                                                      + (1 / 100) * reward_sum E5,
                                      reward_sum := 0\<rparr>
                          in Some (Inr (get_all_sender_obs F E6, E6)))))"

text \<open>\<open>step\<close>: the result is the observation, the reward, the done flag and the environment.\<close>

definition env_step ::
  "nat \<Rightarrow> constants \<Rightarrow> 'w link_ops \<Rightarrow> sender_obs \<Rightarrow> real list \<Rightarrow> 'w env
     \<Rightarrow> (error + (real list \<times> real \<times> bool \<times> 'w env)) option" where
  "env_step fuel C L F actions E =
     (case actions of
        [] \<Rightarrow> Some (Inl IndexError)
      | a0 # rest \<Rightarrow>
          let s1 = apply_rate_delta C a0 (sender0 (net E));
              s2_or_err = (if congestion_control_type E = ''cubic''
                           then (case rest of
                                   [] \<Rightarrow> Inl IndexError
                                 | a1 # _ \<Rightarrow> Inr (apply_cwnd_delta a1 s1))
                           else Inr s1)
          in (case s2_or_err of
               Inl err \<Rightarrow> Some (Inl err)
             | Inr s2 \<Rightarrow>
                 let E1 = E\<lparr>net := (net E)\<lparr>sender0 := s2\<rparr>\<rparr> in
                 (case run_dur E1 of
                    None \<Rightarrow> Some (Inl TypeError)
                  | Some dur \<Rightarrow>
                      (case run_for_dur fuel C L F dur E1 of
                         None \<Rightarrow> None
                       | Some (Inl err) \<Rightarrow> Some (Inl err)
                       | Some (Inr (reward, E2)) \<Rightarrow>
                           let E3 = E2\<lparr>steps_taken := steps_taken E2 + 1\<rparr> in
                           (case is_finished (current_trace E3) (cur_time (net E3)) of
                              Inl err \<Rightarrow> Some (Inl err)
                            | Inr should_stop \<Rightarrow>
                                Some (Inr (get_all_sender_obs F E3, reward, should_stop,
                                           E3\<lparr>reward_sum := reward_sum E3 + reward\<rparr>)))))))"

section \<open>Notions used in the statements and proofs\<close>

text \<open>
  The event pushed for a packet that moves on by one hop, and the values the link methods
  return, in the order the engine calls them, while the event \<open>e\<close> is dispatched on the
  network \<open>n\<close>.
\<close>

definition forwarded :: "event \<Rightarrow> event_type \<Rightarrow> real \<Rightarrow> real \<Rightarrow> bool \<Rightarrow> event" where
  "forwarded e ty lat qd drp =
     \<lparr>event_time = event_time e + lat, event_type = ty, next_hop = next_hop e + 1,
      cur_latency = cur_latency e + lat, dropped = drp, event_id = event_id e,
      event_rto = event_rto e, event_queue_delay = event_queue_delay e + qd\<rparr>"

definition hop_qd :: "'w link_ops \<Rightarrow> 'w network \<Rightarrow> event \<Rightarrow> real \<times> 'w" where
  "hop_qd L n e = get_cur_queue_delay L (path (sender0 n) ! next_hop e) (event_time e) (links n)"

definition hop_lat :: "'w link_ops \<Rightarrow> 'w network \<Rightarrow> event \<Rightarrow> real \<times> 'w" where
  "hop_lat L n e = get_cur_latency L (path (sender0 n) ! next_hop e) (event_time e) (snd (hop_qd L n e))"

definition hop_enter :: "'w link_ops \<Rightarrow> 'w network \<Rightarrow> event \<Rightarrow> bool \<times> 'w" where
  "hop_enter L n e = packet_enters_link L (path (sender0 n) ! next_hop e) (event_time e) (snd (hop_lat L n e))"

definition hop_bw :: "'w link_ops \<Rightarrow> 'w network \<Rightarrow> event \<Rightarrow> real \<times> 'w" where
  "hop_bw L n e = get_bandwidth L 0 (event_time e) (snd (hop_enter L n e))"

definition sampled :: "'w link_ops \<Rightarrow> 'w network \<Rightarrow> event \<Rightarrow> sender \<Rightarrow> sender" where
  "sampled L n e s =
     (if fst (hop_enter L n e)
      then s\<lparr>queue_delay_samples := queue_delay_samples s @ [event_queue_delay e + fst (hop_qd L n e)]\<rparr>
      else s)"

text \<open>
  The packet events pending: every event but the SEND events at hop 0, which only pace the
  sender. \<open>in_flight_ok\<close> says that the bytes in flight are a whole number of packets,
  at least one for each pending packet event.
\<close>

definition packets_pending :: "'w network \<Rightarrow> nat" where
  "packets_pending n = length (filter (\<lambda>e. 1 \<le> next_hop e) (q n))"

definition in_flight_ok :: "constants \<Rightarrow> 'w network \<Rightarrow> bool" where
  "in_flight_ok C n \<longleftrightarrow>
     (\<forall>e \<in> set (q n). event_type e = EVENT_TYPE_ACK \<longrightarrow> 1 \<le> next_hop e)
     \<and> (\<exists>k. packets_pending n \<le> k
              \<and> bytes_in_flight (sender0 n) = int k * BYTES_PER_PACKET C)"

text \<open>
  The networks an episode can reach: from construction, by \<open>reset\<close>, by the parts of
  \<open>run_for_dur\<close> and by the two actions of \<open>step\<close>.
\<close>

inductive reachable :: "constants \<Rightarrow> 'w link_ops \<Rightarrow> sender_obs \<Rightarrow> 'w network \<Rightarrow> bool"
  for C :: constants and L :: "'w link_ops" and F :: sender_obs where
  created: "reachable C L F (Network_init C (Sender_init F sid r pth dst feats cw hlen dscale) w)"
| reset: "reachable C L F n \<Longrightarrow> reachable C L F (Network_reset C L F n)"
| started: "reachable C L F (net E) \<Longrightarrow> start_run dur E = Inr (t, n') \<Longrightarrow> reachable C L F n'"
| dispatched: "reachable C L F n \<Longrightarrow> dispatch C L n xd = Inr (n', xd') \<Longrightarrow> reachable C L F n'"
| stopped: "reachable C L F n \<Longrightarrow> reachable C L F (n\<lparr>cur_time := t\<rparr>)"
| finished: "reachable C L F n \<Longrightarrow> finish_run C F E n xd = Inr (r, E') \<Longrightarrow> reachable C L F (net E')"
| rate_changed: "reachable C L F n \<Longrightarrow> reachable C L F (n\<lparr>sender0 := apply_rate_delta C a (sender0 n)\<rparr>)"
| cwnd_changed: "reachable C L F n \<Longrightarrow> reachable C L F (n\<lparr>sender0 := apply_cwnd_delta a (sender0 n)\<rparr>)"

section \<open>Example instances\<close>

text \<open>
  Values for the parameters, used to run the model on concrete inputs: constants, links
  with no queueing whose latency is a function of the time, and derived values of a
  monitor interval. A fresh history holds \<open>history_len\<close> intervals of zeros.
\<close>

definition ex_constants :: constants where
  "ex_constants = \<lparr>BYTES_PER_PACKET = 1500, MI_RTT_PROPORTION = 1, MIN_RATE = 1 / 10,
     MAX_RATE = 1000, REWARD_SCALE = 1 / 1000, ACK_before_SEND = True\<rparr>"

definition ex_links :: "(real \<Rightarrow> real) \<Rightarrow> bool \<Rightarrow> real \<Rightarrow> unit link_ops" where
  "ex_links lat admit bw =
     \<lparr>get_cur_queue_delay = (\<lambda>l t w. (0, w)),
      get_cur_latency = (\<lambda>l t w. (lat t, w)),
      packet_enters_link = (\<lambda>l t w. (admit, w)),
      get_bandwidth = (\<lambda>l t w. (bw, w)),
      link_reset = (\<lambda>w. w)\<rparr>"

definition zero_mi :: "nat \<Rightarrow> monitor_interval" where
  "zero_mi sid = \<lparr>mi_sender_id = sid, bytes_sent = 0, bytes_acked = 0, bytes_lost = 0,
     send_start = 0, send_end = 0, recv_start = 0, recv_end = 0, mi_rtt_samples = [],
     mi_queue_delay_samples = [], packet_size = 0\<rparr>"

definition ex_get :: "string \<Rightarrow> monitor_interval \<Rightarrow> real" where
  "ex_get name m =
     (if name = ''recv rate'' then
        (if recv_end m > recv_start m
         then 8 * real_of_int (bytes_acked m) / (recv_end m - recv_start m) else 0)
      else if name = ''send rate'' then
        (if send_end m > send_start m
         then 8 * real_of_int (bytes_sent m) / (send_end m - send_start m) else 0)
      else if name = ''avg latency'' then
        (if mi_rtt_samples m = [] then 0 else np_mean (mi_rtt_samples m))
      else if name = ''loss ratio'' then
        (if bytes_lost m + bytes_acked m > 0
         then real_of_int (bytes_lost m) / real_of_int (bytes_lost m + bytes_acked m) else 0)
      else 0)"

definition ex_obs :: sender_obs where
  "ex_obs = \<lparr>SenderHistory = (\<lambda>hlen feats sid. replicate hlen (zero_mi sid)),
     mi_get = ex_get,
     mi_as_array = (\<lambda>feats m. map (\<lambda>f. ex_get f m) feats)\<rparr>"

definition ex_sender :: sender where
  "ex_sender = Sender_init ex_obs 1 1 [0, 1] 0 [''recv rate''] 25 2 1"

definition ex_net :: "unit network" where
  "ex_net = Network_init ex_constants ex_sender ()"

definition ex_net_window :: "unit network" where
  "ex_net_window = Network_init ex_constants (ex_sender\<lparr>use_cwnd := True, cwnd := 0\<rparr>) ()"

definition ex_net_sent :: "unit network" where
  "ex_net_sent = fst (projr (dispatch ex_constants (ex_links (\<lambda>t. 1) True 1) ex_net []))"

text \<open>A number of dispatches in a row, to reach example states.\<close>

fun dispatch_n ::
  "nat \<Rightarrow> constants \<Rightarrow> 'w link_ops \<Rightarrow> 'w network \<Rightarrow> real list \<Rightarrow> error + ('w network \<times> real list)" where
  "dispatch_n 0 C L n xd = Inr (n, xd)"
| "dispatch_n (Suc k) C L n xd =
     (case dispatch C L n xd of Inl err \<Rightarrow> Inl err | Inr (n', xd') \<Rightarrow> dispatch_n k C L n' xd')"

definition ex_net_lost :: "unit network" where
  "ex_net_lost = fst (projr (dispatch_n 4 ex_constants (ex_links (\<lambda>t. 1) False 1) ex_net []))"

text \<open>
  What the bytes in flight exceed the balance of the interval's counters by: the bytes of
  the packets that were in flight when the counters were reset.
\<close>

definition flight_balance :: "constants \<Rightarrow> sender \<Rightarrow> int" where
  "flight_balance C s = bytes_in_flight s - (sent s - acked s - lost s) * BYTES_PER_PACKET C"

text \<open>
  An environment on a trace of 30 seconds with a one-way delay of 500 ms, so that the
  starting rate is 10 packets per second, and links that add that delay at each hop.
\<close>

definition ex_trace :: trace where
  "ex_trace = \<lparr>timestamps = [30], bandwidths = [12], delays = [500], loss_rate = 0,
     queue_size = 50, ack_delay_prob = 0, idx = 0\<rparr>"

definition ex_L :: "unit link_ops" where
  "ex_L = ex_links (\<lambda>t. 1 / 2) True 1000"

definition ex_env0 :: "unit env" where
  "ex_env0 = \<lparr>current_trace = ex_trace, train_flag = False, congestion_control_type = ''aurora'',
     env_history_len = 2, env_features = [''recv rate'', ''avg latency''], env_delta_scale = 1,
     net = Network_init ex_constants
             (Sender_init ex_obs 1 10 [0, 1] 0 [''recv rate'', ''avg latency''] 25 2 1) (),
     run_dur = None, steps_taken = 0, reward_sum = 0, reward_ewma = 0, episodes_run = - 1,
     next_sender_id = 2\<rparr>"

definition returned :: "(error + 'a) option \<Rightarrow> 'a" where
  "returned r = projr (the r)"

text \<open>The environment after \<open>reset()\<close>, and after a following \<open>step([-1])\<close>.\<close>

definition ex_env1 :: "unit env" where
  "ex_env1 = snd (returned (env_reset 40 ex_constants ex_L ex_obs ex_trace () ex_env0))"

definition ex_env2 :: "unit env" where
  "ex_env2 = snd (snd (snd (returned (env_step 40 ex_constants ex_L ex_obs [- 1] ex_env1))))"

text \<open>The environment after \<open>reset()\<close> with the rate lowered as \<open>step([-1])\<close> does.\<close>

definition ex_env1_slow :: "unit env" where
  "ex_env1_slow =
     ex_env1\<lparr>net := (net ex_env1)\<lparr>sender0 :=
                apply_rate_delta ex_constants (- 1) (sender0 (net ex_env1))\<rparr>\<rparr>"

text \<open>The environment after \<open>run_for_dur\<close> is then called as \<open>step\<close> calls it.\<close>

definition ex_env2_run :: "unit env" where
  "ex_env2_run =
     snd (returned (run_for_dur 40 ex_constants ex_L ex_obs (1001 / 1000) ex_env1_slow))"

text \<open>The bytes sent, acknowledged and lost of the interval finalized last.\<close>

definition interval_bytes :: "'w env \<Rightarrow> int \<times> int \<times> int" where
  "interval_bytes E =
     (bytes_sent (last (history (sender0 (net E)))),
      bytes_acked (last (history (sender0 (net E)))),
      bytes_lost (last (history (sender0 (net E)))))"

text \<open>
  A queue in ascending order: no entry is smaller than an entry before it. The tuple of
  an entry as a value of a lexicographic product order, the two event types as 0 and 1 in
  the order Python gives them.
\<close>

definition queue_ok :: "constants \<Rightarrow> event list \<Rightarrow> bool" where
  "queue_ok C es = sorted_wrt (\<lambda>a b. \<not> event_lt C b a) es"

definition type_rank :: "constants \<Rightarrow> event_type \<Rightarrow> nat" where
  "type_rank C ty = (if (ty = EVENT_TYPE_ACK) = ACK_before_SEND C then 0 else 1)"

definition event_key ::
  "constants \<Rightarrow> event \<Rightarrow> real \<times> nat \<times> nat \<times> real \<times> bool \<times> nat \<times> real \<times> real" where
  "event_key C e =
     (event_time e, type_rank C (event_type e), next_hop e, cur_latency e, dropped e,
      event_id e, event_rto e, event_queue_delay e)"

text \<open>The events a run of the loop dispatched, in order.\<close>

definition dispatched_events ::
  "(error + ('w network \<times> real list \<times> event list)) option \<Rightarrow> event list" where
  "dispatched_events r = snd (snd (returned r))"

text \<open>
  A trace whose link delay rises from 500 ms to 750 ms at 1.25 s, with links that add the
  delay of the time at each hop; the environment after \<open>reset()\<close> on it, and after a
  following \<open>step([0])\<close>, which leaves the rate as it is.
\<close>

definition ex_trace_step :: trace where
  "ex_trace_step = \<lparr>timestamps = [0, 5 / 4, 30], bandwidths = [12, 12, 12],
     delays = [500, 750, 750], loss_rate = 0, queue_size = 50, ack_delay_prob = 0, idx = 0\<rparr>"

definition ex_L_step :: "unit link_ops" where
  "ex_L_step = ex_links (\<lambda>t. if t < 5 / 4 then 1 / 2 else 3 / 4) True 1000"

definition ex_step1 :: "unit env" where
  "ex_step1 = snd (returned (env_reset 40 ex_constants ex_L_step ex_obs ex_trace_step () ex_env0))"

definition ex_step2 :: "unit env" where
  "ex_step2 = snd (snd (snd (returned (env_step 40 ex_constants ex_L_step ex_obs [0] ex_step1))))"

text \<open>The environment after \<open>run_for_dur\<close> is called once more, as a second \<open>step([0])\<close> calls it.\<close>

definition ex_step3 :: "unit env" where
  "ex_step3 =
     snd (returned (run_for_dur 40 ex_constants ex_L_step ex_obs (4129 / 4000) ex_step2))"

text \<open>What the throughput estimate depends on: the phase, the latency change, the cache, the estimate.\<close>

definition tput_state :: "'w env \<Rightarrow> bool \<times> real \<times> real list \<times> real" where
  "tput_state E =
     (start_stage (sender0 (net E)), lat_diff (sender0 (net E)), recv_rate_cache (net E),
      max_tput (sender0 (net E)))"

text \<open>
  The shape of the queue of a flow whose destination is hop 0, as the environment builds
  it: the SEND events are the pacing events at hop 0, one of them is always pending, and an
  ACK event is at a hop from 1 to the length of the path.
\<close>

definition queue_shape :: "'w network \<Rightarrow> bool" where
  "queue_shape n =
     ((\<exists>e \<in> set (q n). event_type e = EVENT_TYPE_SEND)
      \<and> (\<forall>e \<in> set (q n).
            (event_type e = EVENT_TYPE_SEND \<longrightarrow> next_hop e = 0)
            \<and> (event_type e = EVENT_TYPE_ACK \<longrightarrow>
                   0 < next_hop e \<and> next_hop e \<le> length (path (sender0 n)))))"

text \<open>The conditions under which one pass of the loop on such a flow raises nothing.\<close>

definition loop_ready :: "constants \<Rightarrow> 'w network \<Rightarrow> bool" where
  "loop_ready C n =
     (got_data (sender0 n) \<and> 0 < rate (sender0 n) \<and> dest (sender0 n) = 0
      \<and> path (sender0 n) \<noteq> [] \<and> (use_cwnd (sender0 n) \<longrightarrow> BYTES_PER_PACKET C \<noteq> 0)
      \<and> queue_shape n)"

text \<open>
  A bound on the passes of the loop still to come before the end time: a pacing event at
  time \<open>t\<close> stands for the \<open>\<lceil>(end_time - t) * rate\<rceil>\<close> packets still to be sent, each of
  which crosses every hop, and an ACK event for the hops it still has to cross.
\<close>

definition sends_left :: "real \<Rightarrow> real \<Rightarrow> real \<Rightarrow> nat" where
  "sends_left r end_time t = nat \<lceil>(end_time - t) * r\<rceil>"

definition event_weight :: "nat \<Rightarrow> real \<Rightarrow> real \<Rightarrow> event \<Rightarrow> nat" where
  "event_weight len r end_time e =
     (if event_type e = EVENT_TYPE_SEND then sends_left r end_time (event_time e) * (len + 1)
      else len + 1 - next_hop e)"

definition queue_weight :: "real \<Rightarrow> 'w network \<Rightarrow> nat" where
  "queue_weight end_time n =
     sum_list (map (event_weight (length (path (sender0 n))) (rate (sender0 n)) end_time) (q n))"

text \<open>The fields of the flow, the clock and the trace that \<open>run_for_dur\<close> reads before the loop.\<close>

definition flow_state :: "'w env \<Rightarrow> bool \<times> nat \<times> nat list \<times> real \<times> bool \<times> real \<times> real list" where
  "flow_state E =
     (got_data (sender0 (net E)), dest (sender0 (net E)), path (sender0 (net E)),
      rate (sender0 (net E)), use_cwnd (sender0 (net E)), cur_time (net E),
      timestamps (current_trace E))"

section \<open>The reward function\<close>

text \<open>
  Claim C1. For a throughput, a latency, a loss ratio and an average bandwidth that is
  given (and not zero, where the quotient of the formula is not defined and Python
  raises), \<open>pcc_aurora_reward\<close> returns
  \<open>500 * throughput / avg_bw - 1000 * latency - 2000 * loss\<close>, whatever the
  \<open>min_rtt\<close> argument is: two calls that differ only in it return the same value.
\<close>

theorem pcc_aurora_reward_formula:
  assumes "avg_bw \<noteq> 0"
  shows "pcc_aurora_reward throughput latency loss (Some avg_bw) rtt1
           = Inr (500 * throughput / avg_bw - 1000 * latency - 2000 * loss)
         \<and> pcc_aurora_reward throughput latency loss (Some avg_bw) rtt1
           = pcc_aurora_reward throughput latency loss (Some avg_bw) rtt2"
  using assms by (simp add: pcc_aurora_reward_def)

theorem pcc_aurora_reward_formula_witness:
  "(200::real) \<noteq> 0
   \<and> pcc_aurora_reward 100 (1/10) (1/100) (Some 200) (Some 3) = Inr 130
   \<and> pcc_aurora_reward 100 (1/10) (1/100) (Some 200) (Some 3)
     = pcc_aurora_reward 100 (1/10) (1/100) (Some 200) None"
  using pcc_aurora_reward_formula [of 200 100 "1/10" "1/100" "Some 3" None]
  by auto

section \<open>Trace construction\<close>

text \<open>
  Claim C8, as the code has it. \<open>Trace.__init__\<close> raises exactly when timestamps and
  bandwidths differ in length, and otherwise returns the trace with the lists it was
  given and the cursor at 0; neither the length of delays nor emptiness is looked at.
\<close>

theorem Trace_init_checks_bandwidths_only:
  "(Trace_init ts bws ds lr qs = Inl AssertionError \<longleftrightarrow> length ts \<noteq> length bws)
   \<and> (length ts = length bws \<longrightarrow>
        Trace_init ts bws ds lr qs
          = Inr \<lparr>timestamps = ts, bandwidths = bws, delays = ds, loss_rate = lr,
                 queue_size = qs, ack_delay_prob = 0, idx = 0\<rparr>)"
  by (simp add: Trace_init_def)

theorem Trace_init_checks_bandwidths_only_witness:
  "Trace_init [0, 10] [5] [20, 20] 0 50 = Inl AssertionError
   \<and> Trace_init [0, 10] [5, 6] [20, 20] 0 50
       = Inr \<lparr>timestamps = [0, 10], bandwidths = [5, 6], delays = [20, 20], loss_rate = 0,
              queue_size = 50, ack_delay_prob = 0, idx = 0\<rparr>"
  using Trace_init_checks_bandwidths_only [of "[0, 10]" "[5]" "[20, 20]" 0 50]
    Trace_init_checks_bandwidths_only [of "[0, 10]" "[5, 6]" "[20, 20]" 0 50]
  by simp

text \<open>
  The claim as written fails: a delays list shorter than the timestamps, and three empty
  lists, are both accepted.
\<close>

theorem Trace_init_accepts_malformed:
  "Trace_init [0, 10] [5, 6] [20] 0 50
     = Inr \<lparr>timestamps = [0, 10], bandwidths = [5, 6], delays = [20], loss_rate = 0,
            queue_size = 50, ack_delay_prob = 0, idx = 0\<rparr>
   \<and> Trace_init [] [] [] 0 50
     = Inr \<lparr>timestamps = [], bandwidths = [], delays = [], loss_rate = 0,
            queue_size = 50, ack_delay_prob = 0, idx = 0\<rparr>"
  by (simp add: Trace_init_def)

section \<open>Facts about the queue and one dispatch\<close>

lemma set_heappush: "set (heappush C es e) = insert e (set es)"
  by (induction es) auto

lemma length_heappush: "length (heappush C es e) = Suc (length es)"
  by (induction es) auto

lemma sum_list_heappush:
  "sum_list (map f (heappush C es e)) = (f e :: nat) + sum_list (map f es)"
  by (induction es) auto

lemma filter_heappush_length:
  "length (filter P (heappush C es e)) = (if P e then 1 else 0) + length (filter P es)"
  by (induction es) auto

lemmas hop_defs = hop_qd_def hop_lat_def hop_enter_def hop_bw_def

lemma dispatch_returned:
  assumes "q n = e # es" "event_type e = EVENT_TYPE_ACK" "next_hop e = length (path (sender0 n))"
  shows "dispatch C L n xd =
     Inr (n\<lparr>q := es, cur_time := event_time e,
             sender0 := invoke C (event_time e) (returned_call (sender0 n) e) (sender0 n)\<rparr>, xd)"
  using assms by (simp add: dispatch_def heappop_def dispatch_ack_def Let_def)

lemma dispatch_forward:
  assumes "q n = e # es" "event_type e = EVENT_TYPE_ACK" "next_hop e \<noteq> length (path (sender0 n))"
  shows "dispatch C L n xd =
     (if next_hop e < length (path (sender0 n)) then
        Inr (n\<lparr>q := heappush C es
                     (forwarded e EVENT_TYPE_ACK (fst (hop_lat L n e)) (fst (hop_qd L n e)) (dropped e)),
                cur_time := event_time e, links := snd (hop_lat L n e)\<rparr>, xd)
      else Inl IndexError)"
  using assms
  by (simp add: dispatch_def heappop_def dispatch_ack_def Let_def path_link_def forwarded_def
      hop_defs split_beta)

lemma dispatch_send0:
  assumes "q n = e # es" "event_type e = EVENT_TYPE_SEND" "next_hop e = 0"
  shows "dispatch C L n xd =
     (case can_send_packet C (sender0 n) of
        Inl err \<Rightarrow> Inl err
      | Inr can \<Rightarrow>
          if rate (sender0 n) = 0 then Inl ZeroDivisionError
          else if path (sender0 n) = [] then Inl IndexError
          else if fst (hop_bw L n e) = 0 then Inl ZeroDivisionError
          else
            Inr (n\<lparr>q := (let es1 = heappush C es (next_send_event (n\<lparr>cur_time := event_time e\<rparr>))
                          in if can
                             then heappush C es1
                                    (forwarded e (if dest (sender0 n) = 0 then EVENT_TYPE_ACK
                                                  else EVENT_TYPE_SEND)
                                       (fst (hop_lat L n e)) (fst (hop_qd L n e))
                                       (\<not> fst (hop_enter L n e)))
                             else es1),
                    cur_time := event_time e, links := snd (hop_bw L n e),
                    event_count := event_count n + 1,
                    sender0 := sampled L n e
                                 (if can then on_packet_sent C (sender0 n) else sender0 n)\<rparr>,
                 xd @ [1 / fst (hop_bw L n e)]))"
  using assms
  by (auto simp add: dispatch_def heappop_def dispatch_send_def send_at_hop_def Let_def path_link_def
      forwarded_def hop_defs split_beta next_send_event_def on_packet_sent_def sampled_def
      split: sum.splits)

lemma dispatch_sendk:
  assumes "q n = e # es" "event_type e = EVENT_TYPE_SEND" "next_hop e \<noteq> 0"
  shows "dispatch C L n xd =
     (if \<not> next_hop e < length (path (sender0 n)) then Inl IndexError
      else if fst (hop_bw L n e) = 0 then Inl ZeroDivisionError
      else
        Inr (n\<lparr>q := heappush C es
                       (forwarded e (if next_hop e = dest (sender0 n) then EVENT_TYPE_ACK
                                     else EVENT_TYPE_SEND)
                          (fst (hop_lat L n e)) (fst (hop_qd L n e)) (\<not> fst (hop_enter L n e))),
                cur_time := event_time e, links := snd (hop_bw L n e),
                sender0 := sampled L n e (sender0 n)\<rparr>,
             xd @ [1 / fst (hop_bw L n e)]))"
  using assms
  by (auto simp add: dispatch_def heappop_def dispatch_send_def send_at_hop_def Let_def path_link_def
      forwarded_def hop_defs split_beta sampled_def)

lemma dispatch_empty: "q n = [] \<Longrightarrow> dispatch C L n xd = Inl IndexError"
  by (simp add: dispatch_def heappop_def)

lemmas ex_defs = ex_net_def ex_sender_def ex_constants_def ex_links_def Sender_init_def
  Network_init_def queue_initial_packets_def reset_obs_def initial_send_event_def
  ex_obs_def zero_mi_def ex_net_window_def

lemmas step_defs = dispatch_def heappop_def dispatch_ack_def dispatch_send_def send_at_hop_def
  can_send_packet_def on_packet_sent_def on_packet_acked_def on_packet_lost_def timeout_def
  returned_call_def path_link_def next_send_event_def loop_break_def event_lt_def event_type_lt_def

section \<open>The pacing clock\<close>

text \<open>
  Claim C5. When a SEND event at hop 0 is dispatched at time \<open>t\<close> for a sender of rate
  \<open>r\<close> (not zero; the path not empty, the bandwidth read not zero, the packet size not
  zero in window mode, so that nothing raises), the dispatch returns and the queue then
  holds the SEND event at hop 0 with time \<open>t + 1 / r\<close>, whatever \<open>can_send_packet\<close>
  returned and whether or not the link admitted the packet.
\<close>

theorem send_hop0_schedules_next_send:
  assumes "q n = e # es" and "event_type e = EVENT_TYPE_SEND" and "next_hop e = 0"
    and "rate (sender0 n) \<noteq> 0" and "path (sender0 n) \<noteq> []"
    and "use_cwnd (sender0 n) \<longrightarrow> BYTES_PER_PACKET C \<noteq> 0"
    and "fst (hop_bw L n e) \<noteq> 0"
  shows "\<exists>n' xd'. dispatch C L n xd = Inr (n', xd')
           \<and> \<lparr>event_time = event_time e + 1 / rate (sender0 n), event_type = EVENT_TYPE_SEND,
               next_hop = 0, cur_latency = 0, dropped = False, event_id = event_count n,
               event_rto = rto (sender0 n), event_queue_delay = 0\<rparr> \<in> set (q n')
           \<and> cur_time n' = event_time e \<and> event_count n' = event_count n + 1"
proof -
  from assms(6) have "\<exists>can. can_send_packet C (sender0 n) = Inr can"
    by (auto simp: can_send_packet_def)
  then obtain can where "can_send_packet C (sender0 n) = Inr can" ..
  with assms(4,5,7) show ?thesis
    unfolding dispatch_send0[OF assms(1-3)]
    by (simp add: set_heappush next_send_event_def Let_def)
qed

theorem send_hop0_schedules_next_send_witness:
  "can_send_packet ex_constants (sender0 ex_net_window) = Inr False
   \<and> \<not> fst (packet_enters_link (ex_links (\<lambda>t. 1) False 1) 0 0 ())
   \<and> (\<exists>n' xd'. dispatch ex_constants (ex_links (\<lambda>t. 1) False 1) ex_net_window [] = Inr (n', xd')
         \<and> \<lparr>event_time = 1, event_type = EVENT_TYPE_SEND, next_hop = 0, cur_latency = 0,
             dropped = False, event_id = 1, event_rto = - 1, event_queue_delay = 0\<rparr> \<in> set (q n')
         \<and> cur_time n' = 0 \<and> event_count n' = 2)"
proof -
  let ?L = "ex_links (\<lambda>t. 1) False 1"
  let ?e = "initial_send_event 0 (- 1)"
  have h1: "q ex_net_window = ?e # []"
    by (simp add: ex_defs)
  have h2: "event_type ?e = EVENT_TYPE_SEND" and h3: "next_hop ?e = 0"
    by (simp_all add: initial_send_event_def)
  have h4: "rate (sender0 ex_net_window) \<noteq> 0" and h5: "path (sender0 ex_net_window) \<noteq> []"
    and h6: "use_cwnd (sender0 ex_net_window) \<longrightarrow> BYTES_PER_PACKET ex_constants \<noteq> 0"
    by (simp_all add: ex_defs)
  have h7: "fst (hop_bw ?L ex_net_window ?e) \<noteq> 0"
    by (simp add: hop_defs ex_links_def)
  have c: "can_send_packet ex_constants (sender0 ex_net_window) = Inr False"
    by (simp add: ex_defs can_send_packet_def)
  have a: "\<not> fst (packet_enters_link ?L 0 0 ())"
    by (simp add: ex_links_def)
  have r: "rate (sender0 ex_net_window) = 1" "event_count ex_net_window = 1"
    "rto (sender0 ex_net_window) = - 1" "event_time ?e = 0"
    by (simp_all add: ex_defs)
  from send_hop0_schedules_next_send [OF h1 h2 h3 h4 h5 h6 h7, of "[]"]
  have "\<exists>n' xd'. dispatch ex_constants ?L ex_net_window [] = Inr (n', xd')
         \<and> \<lparr>event_time = 1, event_type = EVENT_TYPE_SEND, next_hop = 0, cur_latency = 0,
             dropped = False, event_id = 1, event_rto = - 1, event_queue_delay = 0\<rparr> \<in> set (q n')
         \<and> cur_time n' = 0 \<and> event_count n' = 2"
    by (simp add: r eval_nat_numeral)
  with c a show ?thesis by blast
qed

section \<open>Bytes in flight\<close>

lemma bif_invoke:
  "bytes_in_flight (invoke C t c s) =
     bytes_in_flight s - (if c = Call_timeout then 0 else BYTES_PER_PACKET C)"
  by (cases c) (simp_all add: timeout_def on_packet_lost_def on_packet_acked_def Let_def)

lemma bif_sampled [simp]: "bytes_in_flight (sampled L n e s) = bytes_in_flight s"
  by (simp add: sampled_def)

lemma in_flight_ok_init:
  "in_flight_ok C (Network_init C (Sender_init F sid r pth dst feats cw hlen dscale) w)"
  by (simp add: in_flight_ok_def packets_pending_def Network_init_def queue_initial_packets_def
      Sender_init_def reset_obs_def initial_send_event_def Let_def)

lemma in_flight_ok_reset: "in_flight_ok C (Network_reset C L F n)"
  by (simp add: in_flight_ok_def packets_pending_def Network_reset_def queue_initial_packets_def
      sender_reset_def reset_obs_def initial_send_event_def Let_def)

lemma start_run_fields:
  assumes "start_run dur E = Inr (t, n')"
  shows "q n' = q (net E)" "bytes_in_flight (sender0 n') = bytes_in_flight (sender0 (net E))"
  using assms by (auto simp: start_run_def Let_def reset_obs_def split: if_splits)

lemma finish_run_fields:
  assumes "finish_run C F E n xd = Inr (r, E')"
  shows "q (net E') = q n" "bytes_in_flight (sender0 (net E')) = bytes_in_flight (sender0 n)"
  using assms
  by (auto simp: finish_run_def Let_def record_run_def split: sum.splits if_splits)

lemma in_flight_ok_dispatch:
  assumes "in_flight_ok C n" and "dispatch C L n xd = Inr (n', xd')"
  shows "in_flight_ok C n'"
proof -
  from assms(2) obtain e es where qn: "q n = e # es"
    by (cases "q n") (auto simp: dispatch_empty)
  from assms(1) obtain k where k: "packets_pending n \<le> k"
    "bytes_in_flight (sender0 n) = int k * BYTES_PER_PACKET C"
    and acks: "\<forall>e \<in> set (q n). event_type e = EVENT_TYPE_ACK \<longrightarrow> 1 \<le> next_hop e"
    by (auto simp: in_flight_ok_def)
  show ?thesis
  proof (cases "event_type e")
    case EVENT_TYPE_ACK
    with acks qn have hop: "1 \<le> next_hop e" by simp
    show ?thesis
    proof (cases "next_hop e = length (path (sender0 n))")
      case True
      from assms(2) have n': "n' = n\<lparr>q := es, cur_time := event_time e,
              sender0 := invoke C (event_time e) (returned_call (sender0 n) e) (sender0 n)\<rparr>"
        unfolding dispatch_returned[OF qn EVENT_TYPE_ACK True] by simp
      from k(1) qn hop have pk: "Suc (length (filter (\<lambda>e. 1 \<le> next_hop e) es)) \<le> k"
        by (simp add: packets_pending_def)
      then obtain j where j: "k = Suc j" by (cases k) auto
      show ?thesis
      proof (cases "returned_call (sender0 n) e = Call_timeout")
        case True
        with n' k pk acks qn show ?thesis
          by (auto simp: in_flight_ok_def packets_pending_def timeout_def intro!: exI[of _ k])
      next
        case False
        with n' k pk acks qn j show ?thesis
          by (auto simp: in_flight_ok_def packets_pending_def bif_invoke algebra_simps
              intro!: exI[of _ j])
      qed
    next
      case False
      with assms(2) have n': "n' = n\<lparr>q := heappush C es
                     (forwarded e EVENT_TYPE_ACK (fst (hop_lat L n e)) (fst (hop_qd L n e)) (dropped e)),
                cur_time := event_time e, links := snd (hop_lat L n e)\<rparr>"
        unfolding dispatch_forward[OF qn EVENT_TYPE_ACK False] by (simp split: if_splits)
      with k acks qn hop show ?thesis
        by (auto simp: in_flight_ok_def packets_pending_def set_heappush filter_heappush_length
            forwarded_def intro!: exI[of _ k])
    qed
  next
    case EVENT_TYPE_SEND
    show ?thesis
    proof (cases "next_hop e = 0")
      case True
      from assms(2) obtain can where
        n': "n' = n\<lparr>q := (let es1 = heappush C es (next_send_event (n\<lparr>cur_time := event_time e\<rparr>))
                          in if can
                             then heappush C es1
                                    (forwarded e (if dest (sender0 n) = 0 then EVENT_TYPE_ACK
                                                  else EVENT_TYPE_SEND)
                                       (fst (hop_lat L n e)) (fst (hop_qd L n e))
                                       (\<not> fst (hop_enter L n e)))
                             else es1),
                    cur_time := event_time e, links := snd (hop_bw L n e),
                    event_count := event_count n + 1,
                    sender0 := sampled L n e
                                 (if can then on_packet_sent C (sender0 n) else sender0 n)\<rparr>"
      proof (cases "can_send_packet C (sender0 n)")
        case (Inl err)
        with assms(2) show ?thesis
          unfolding dispatch_send0[OF qn EVENT_TYPE_SEND True] by simp
      next
        case (Inr can)
        with assms(2) that[of can] show ?thesis
          unfolding dispatch_send0[OF qn EVENT_TYPE_SEND True] by (simp split: if_splits)
      qed
      show ?thesis
      proof (cases can)
        case True
        with n' k acks qn \<open>next_hop e = 0\<close> show ?thesis
          by (auto simp: in_flight_ok_def packets_pending_def set_heappush filter_heappush_length
              forwarded_def next_send_event_def on_packet_sent_def algebra_simps
              intro!: exI[of _ "Suc k"])
      next
        case False
        with n' k acks qn \<open>next_hop e = 0\<close> show ?thesis
          by (auto simp: in_flight_ok_def packets_pending_def set_heappush filter_heappush_length
              next_send_event_def intro!: exI[of _ k])
      qed
    next
      case False
      with assms(2) have n': "n' = n\<lparr>q := heappush C es
                       (forwarded e (if next_hop e = dest (sender0 n) then EVENT_TYPE_ACK
                                     else EVENT_TYPE_SEND)
                          (fst (hop_lat L n e)) (fst (hop_qd L n e)) (\<not> fst (hop_enter L n e))),
                cur_time := event_time e, links := snd (hop_bw L n e),
                sender0 := sampled L n e (sender0 n)\<rparr>"
        unfolding dispatch_sendk[OF qn EVENT_TYPE_SEND False] by (simp split: if_splits)
      with k acks qn False show ?thesis
        by (auto simp: in_flight_ok_def packets_pending_def set_heappush filter_heappush_length
            forwarded_def intro!: exI[of _ k])
    qed
  qed
qed

lemma reachable_in_flight_ok: "reachable C L F n \<Longrightarrow> in_flight_ok C n"
proof (induction rule: reachable.induct)
  case (created sid r pth dst feats cw hlen dscale w)
  show ?case by (rule in_flight_ok_init)
next
  case (reset n)
  show ?case by (rule in_flight_ok_reset)
next
  case (started E dur t n')
  then show ?case by (simp add: in_flight_ok_def packets_pending_def start_run_fields)
next
  case (dispatched n xd n' xd')
  then show ?case by (blast intro: in_flight_ok_dispatch)
next
  case (stopped n t)
  then show ?case by (simp add: in_flight_ok_def packets_pending_def)
next
  case (finished n E xd r E')
  then show ?case by (simp add: in_flight_ok_def packets_pending_def finish_run_fields)
next
  case (rate_changed n a)
  then show ?case
    by (simp add: in_flight_ok_def packets_pending_def apply_rate_delta_def set_rate_def Let_def)
next
  case (cwnd_changed n a)
  then show ?case
    by (simp add: in_flight_ok_def packets_pending_def apply_cwnd_delta_def set_cwnd_def Let_def)
qed

text \<open>
  Claim C10. In every network an episode can reach, the sender's bytes in flight are a
  natural multiple \<open>k\<close> of the packet size, with \<open>k\<close> at least the number of pending
  packet events (each decrement consumes one of them, and each of them was pushed with an
  increment); after \<open>Network.reset\<close> the queue holds the initial SEND event only and
  the counter is 0.
\<close>

theorem bytes_in_flight_multiple_of_packet:
  assumes "reachable C L F n"
  shows "(\<exists>k. packets_pending n \<le> k
              \<and> bytes_in_flight (sender0 n) = int k * BYTES_PER_PACKET C)
         \<and> q (Network_reset C L F n) = [initial_send_event (event_count n) (rto (sender0 n))]
         \<and> bytes_in_flight (sender0 (Network_reset C L F n)) = 0"
proof -
  from reachable_in_flight_ok [OF assms]
  have "\<exists>k. packets_pending n \<le> k \<and> bytes_in_flight (sender0 n) = int k * BYTES_PER_PACKET C"
    by (simp add: in_flight_ok_def)
  then show ?thesis
    by (simp add: Network_reset_def queue_initial_packets_def sender_reset_def reset_obs_def Let_def)
qed

theorem bytes_in_flight_multiple_of_packet_witness:
  "reachable ex_constants (ex_links (\<lambda>t. 1) True 1) ex_obs ex_net_sent
   \<and> bytes_in_flight (sender0 ex_net_sent) = 1500
   \<and> packets_pending ex_net_sent = 1
   \<and> (\<exists>k. packets_pending ex_net_sent \<le> k
          \<and> bytes_in_flight (sender0 ex_net_sent) = int k * BYTES_PER_PACKET ex_constants)
   \<and> q (Network_reset ex_constants (ex_links (\<lambda>t. 1) True 1) ex_obs ex_net_sent)
       = [initial_send_event 2 (- 1)]
   \<and> bytes_in_flight (sender0 (Network_reset ex_constants (ex_links (\<lambda>t. 1) True 1) ex_obs ex_net_sent)) = 0"
proof -
  let ?L = "ex_links (\<lambda>t. 1) True 1"
  have d: "dispatch ex_constants ?L ex_net [] = Inr (ex_net_sent, [1])"
    unfolding ex_net_sent_def by (simp add: ex_defs step_defs Let_def)
  have "reachable ex_constants ?L ex_obs ex_net"
    unfolding ex_net_def ex_sender_def by (rule reachable.created)
  then have r: "reachable ex_constants ?L ex_obs ex_net_sent"
    using d by (rule reachable.dispatched)
  have v: "bytes_in_flight (sender0 ex_net_sent) = 1500" "packets_pending ex_net_sent = 1"
    "event_count ex_net_sent = 2" "rto (sender0 ex_net_sent) = - 1"
    by (simp_all add: ex_net_sent_def packets_pending_def ex_defs step_defs Let_def)
  from bytes_in_flight_multiple_of_packet [OF r] r v show ?thesis
    by simp
qed

lemma dispatch_cases [consumes 1, case_names returned forward send0 sendk]:
  assumes "dispatch C L n xd = Inr (n', xd')"
  obtains
    (returned) e es where "q n = e # es" "event_type e = EVENT_TYPE_ACK"
      "next_hop e = length (path (sender0 n))"
      "n' = n\<lparr>q := es, cur_time := event_time e,
              sender0 := invoke C (event_time e) (returned_call (sender0 n) e) (sender0 n)\<rparr>"
      "xd' = xd"
  | (forward) e es where "q n = e # es" "event_type e = EVENT_TYPE_ACK"
      "next_hop e < length (path (sender0 n))"
      "n' = n\<lparr>q := heappush C es
                     (forwarded e EVENT_TYPE_ACK (fst (hop_lat L n e)) (fst (hop_qd L n e)) (dropped e)),
              cur_time := event_time e, links := snd (hop_lat L n e)\<rparr>"
      "xd' = xd"
  | (send0) e es can where "q n = e # es" "event_type e = EVENT_TYPE_SEND" "next_hop e = 0"
      "can_send_packet C (sender0 n) = Inr can" "rate (sender0 n) \<noteq> 0"
      "path (sender0 n) \<noteq> []" "fst (hop_bw L n e) \<noteq> 0"
      "n' = n\<lparr>q := (let es1 = heappush C es (next_send_event (n\<lparr>cur_time := event_time e\<rparr>))
                    in if can
                       then heappush C es1
                              (forwarded e (if dest (sender0 n) = 0 then EVENT_TYPE_ACK
                                            else EVENT_TYPE_SEND)
                                 (fst (hop_lat L n e)) (fst (hop_qd L n e))
                                 (\<not> fst (hop_enter L n e)))
                       else es1),
              cur_time := event_time e, links := snd (hop_bw L n e),
              event_count := event_count n + 1,
              sender0 := sampled L n e
                           (if can then on_packet_sent C (sender0 n) else sender0 n)\<rparr>"
      "xd' = xd @ [1 / fst (hop_bw L n e)]"
  | (sendk) e es where "q n = e # es" "event_type e = EVENT_TYPE_SEND" "next_hop e \<noteq> 0"
      "next_hop e < length (path (sender0 n))" "fst (hop_bw L n e) \<noteq> 0"
      "n' = n\<lparr>q := heappush C es
                     (forwarded e (if next_hop e = dest (sender0 n) then EVENT_TYPE_ACK
                                   else EVENT_TYPE_SEND)
                        (fst (hop_lat L n e)) (fst (hop_qd L n e)) (\<not> fst (hop_enter L n e))),
              cur_time := event_time e, links := snd (hop_bw L n e),
              sender0 := sampled L n e (sender0 n)\<rparr>"
      "xd' = xd @ [1 / fst (hop_bw L n e)]"
proof -
  from assms obtain e es where qn: "q n = e # es"
    by (cases "q n") (auto simp: dispatch_empty)
  show ?thesis
  proof (cases "event_type e")
    case EVENT_TYPE_ACK
    show ?thesis
    proof (cases "next_hop e = length (path (sender0 n))")
      case True
      from assms show ?thesis
        unfolding dispatch_returned[OF qn EVENT_TYPE_ACK True]
        by (intro returned[OF qn EVENT_TYPE_ACK True]) simp_all
    next
      case False
      from assms have lt: "next_hop e < length (path (sender0 n))"
        unfolding dispatch_forward[OF qn EVENT_TYPE_ACK False] by (simp split: if_splits)
      from assms lt show ?thesis
        unfolding dispatch_forward[OF qn EVENT_TYPE_ACK False]
        by (intro forward[OF qn EVENT_TYPE_ACK lt]) simp_all
    qed
  next
    case EVENT_TYPE_SEND
    show ?thesis
    proof (cases "next_hop e = 0")
      case True
      show ?thesis
      proof (cases "can_send_packet C (sender0 n)")
        case (Inl err)
        with assms show ?thesis
          unfolding dispatch_send0[OF qn EVENT_TYPE_SEND True] by simp
      next
        case (Inr can)
        from assms Inr have c: "rate (sender0 n) \<noteq> 0" "path (sender0 n) \<noteq> []"
          "fst (hop_bw L n e) \<noteq> 0"
          unfolding dispatch_send0[OF qn EVENT_TYPE_SEND True] by (simp_all split: if_splits)
        from assms Inr c show ?thesis
          unfolding dispatch_send0[OF qn EVENT_TYPE_SEND True]
          by (intro send0[OF qn EVENT_TYPE_SEND True Inr c]) simp_all
      qed
    next
      case False
      from assms have c: "next_hop e < length (path (sender0 n))" "fst (hop_bw L n e) \<noteq> 0"
        unfolding dispatch_sendk[OF qn EVENT_TYPE_SEND False] by (simp_all split: if_splits)
      from assms c show ?thesis
        unfolding dispatch_sendk[OF qn EVENT_TYPE_SEND False]
        by (intro sendk[OF qn EVENT_TYPE_SEND False c]) simp_all
    qed
  qed
qed

section \<open>Dropped packets that return to the sender\<close>

text \<open>
  Claim C7. When an ACK event at the final hop with its dropped flag set is dispatched, the
  one sender method called for it is \<open>timeout\<close> or \<open>on_packet_lost\<close>, never
  \<open>on_packet_acked\<close>: the acked counter is unchanged, and the lost counter grows by one
  exactly when the call is \<open>on_packet_lost\<close>.
\<close>

theorem dropped_packet_lost_or_timed_out:
  assumes "q n = e # es" and "event_type e = EVENT_TYPE_ACK"
    and "next_hop e = length (path (sender0 n))" and "dropped e"
  shows "(returned_call (sender0 n) e = Call_timeout
            \<or> returned_call (sender0 n) e = Call_on_packet_lost (cur_latency e))
         \<and> dispatch C L n xd =
             Inr (n\<lparr>q := es, cur_time := event_time e,
                     sender0 := invoke C (event_time e) (returned_call (sender0 n) e) (sender0 n)\<rparr>,
                  xd)
         \<and> acked (invoke C (event_time e) (returned_call (sender0 n) e) (sender0 n))
             = acked (sender0 n)
         \<and> lost (invoke C (event_time e) (returned_call (sender0 n) e) (sender0 n))
             = lost (sender0 n) + (if returned_call (sender0 n) e = Call_timeout then 0 else 1)"
proof -
  from assms(4) have c: "returned_call (sender0 n) e = Call_timeout
            \<or> returned_call (sender0 n) e = Call_on_packet_lost (cur_latency e)"
    by (simp add: returned_call_def)
  then have "acked (invoke C (event_time e) (returned_call (sender0 n) e) (sender0 n))
             = acked (sender0 n)"
    and "lost (invoke C (event_time e) (returned_call (sender0 n) e) (sender0 n))
             = lost (sender0 n) + (if returned_call (sender0 n) e = Call_timeout then 0 else 1)"
    by (auto simp: timeout_def on_packet_lost_def)
  with c dispatch_returned[OF assms(1-3)] show ?thesis by simp
qed

lemma dispatch_n_numeral:
  "dispatch_n (numeral k) C L n xd =
     (case dispatch C L n xd of Inl err \<Rightarrow> Inl err
      | Inr (n', xd') \<Rightarrow> dispatch_n (pred_numeral k) C L n' xd')"
  by (simp add: numeral_eq_Suc)

theorem dropped_packet_lost_or_timed_out_witness:
  "hd (q ex_net_lost) =
     \<lparr>event_time = 2, event_type = EVENT_TYPE_ACK, next_hop = 2, cur_latency = 2,
      dropped = True, event_id = 0, event_rto = - 1, event_queue_delay = 0\<rparr>
   \<and> returned_call (sender0 ex_net_lost) (hd (q ex_net_lost)) = Call_on_packet_lost 2
   \<and> dispatch ex_constants (ex_links (\<lambda>t. 1) False 1) ex_net_lost [] =
       Inr (ex_net_lost\<lparr>q := tl (q ex_net_lost), cur_time := 2,
              sender0 := on_packet_lost ex_constants 2 (sender0 ex_net_lost)\<rparr>, [])
   \<and> acked (on_packet_lost ex_constants 2 (sender0 ex_net_lost)) = 0
   \<and> lost (on_packet_lost ex_constants 2 (sender0 ex_net_lost)) = 1"
proof -
  let ?e = "\<lparr>event_time = 2, event_type = EVENT_TYPE_ACK, next_hop = 2, cur_latency = 2,
      dropped = True, event_id = 0, event_rto = - 1, event_queue_delay = 0\<rparr>"
  have h: "hd (q ex_net_lost) = ?e" "q ex_net_lost \<noteq> []"
    "path (sender0 ex_net_lost) = [0, 1]" "acked (sender0 ex_net_lost) = 0"
    "lost (sender0 ex_net_lost) = 0" "pkt_loss_wait_time (sender0 ex_net_lost) = - 1"
    by (simp_all add: ex_net_lost_def dispatch_n_numeral ex_defs step_defs Let_def)
  then have h1: "q ex_net_lost = ?e # tl (q ex_net_lost)"
    by (cases "q ex_net_lost") auto
  have h2: "event_type ?e = EVENT_TYPE_ACK" and h4: "dropped ?e"
    and h3: "next_hop ?e = length (path (sender0 ex_net_lost))"
    by (simp_all add: h)
  have c: "returned_call (sender0 ex_net_lost) ?e = Call_on_packet_lost 2"
    by (simp add: returned_call_def)
  from dropped_packet_lost_or_timed_out [OF h1 h2 h3 h4, of ex_constants "ex_links (\<lambda>t. 1) False 1" "[]"]
  show ?thesis
    by (simp add: h c)
qed

section \<open>Running the model on the examples\<close>

lemma run_loop_numeral:
  "run_loop (numeral k) C L end_time n xd ds =
     (case q n of
        [] \<Rightarrow> Some (Inl IndexError)
      | e # es \<Rightarrow>
          if loop_break n end_time e
          then Some (Inr (n\<lparr>cur_time := event_time e\<rparr>, xd, ds))
          else (case dispatch C L n xd of
                  Inl err \<Rightarrow> Some (Inl err)
                | Inr (n', xd') \<Rightarrow>
                    run_loop (pred_numeral k) C L end_time n' xd' (ds @ [e])))"
  by (simp add: numeral_eq_Suc)

lemmas eval_defs = step_defs run_loop_numeral Let_def
  env_reset_def env_step_def create_new_links_and_senders_def get_delay_def trace_reset_def
  Network_reset_def sender_reset_def run_for_dur_def start_run_def finish_run_def record_run_def
  get_run_data_def history_step_def history_back_def history_as_array_def get_obs_def
  get_all_sender_obs_def np_mean_def py_round3_def py_max_def pcc_aurora_reward_def
  apply_rate_delta_def set_rate_def is_finished_def returned_def
  Sender_init_def Network_init_def queue_initial_packets_def reset_obs_def initial_send_event_def

lemmas ex_env_defs = ex_env0_def ex_trace_def ex_L_def ex_links_def ex_constants_def ex_obs_def
  ex_get_def zero_mi_def

lemma ex_env1_eval:
  "env_reset 40 ex_constants ex_L ex_obs ex_trace () ex_env0 = Some (Inr ([0, 0, 0, 1], ex_env1))"
  by (simp add: ex_env1_def eval_defs ex_env_defs)

section \<open>The loop of run_for_dur\<close>

lemma run_loop_rule:
  assumes "run_loop k C L t n xd ds = Some (Inr (n', xd', ds'))"
    and "P n ds"
    and "\<And>m ys d e es m' ys'. P m d \<Longrightarrow> q m = e # es \<Longrightarrow> \<not> loop_break m t e
           \<Longrightarrow> dispatch C L m ys = Inr (m', ys') \<Longrightarrow> P m' (d @ [e])"
  shows "\<exists>m e es. P m ds' \<and> q m = e # es \<and> loop_break m t e \<and> n' = m\<lparr>cur_time := event_time e\<rparr>"
  using assms(1,2)
proof (induction k arbitrary: n xd ds)
  case 0
  then show ?case by simp
next
  case (Suc k)
  from Suc.prems(1) obtain e es where qn: "q n = e # es"
    by (cases "q n") auto
  show ?case
  proof (cases "loop_break n t e")
    case True
    with Suc.prems qn show ?thesis by auto
  next
    case False
    with Suc.prems(1) qn obtain m' ys' where d: "dispatch C L n xd = Inr (m', ys')"
      and r: "run_loop k C L t m' ys' (ds @ [e]) = Some (Inr (n', xd', ds'))"
      by (auto split: sum.splits)
    from assms(3)[OF Suc.prems(2) qn False d] have "P m' (ds @ [e])" .
    from Suc.IH[OF r this] show ?thesis .
  qed
qed

lemma reachable_run_loop:
  assumes "run_loop k C L t n xd ds = Some (Inr (n', xd', ds'))" and "reachable C L F n"
  shows "reachable C L F n'"
proof -
  have "\<exists>m e es. reachable C L F m \<and> q m = e # es \<and> loop_break m t e
          \<and> n' = m\<lparr>cur_time := event_time e\<rparr>"
    by (rule run_loop_rule[where P = "\<lambda>m d. reachable C L F m", OF assms])
       (blast intro: reachable.dispatched)
  then show ?thesis by (auto simp: reachable.stopped)
qed

lemma run_for_dur_parts:
  assumes "run_for_dur fuel C L F dur E = Some (Inr (r, E'))"
  obtains t n0 n2 xd ds where "start_run dur E = Inr (t, n0)"
    "run_loop fuel C L t n0 [] [] = Some (Inr (n2, xd, ds))"
    "finish_run C F E n2 xd = Inr (r, E')"
  using assms
  by (auto simp: run_for_dur_def split: sum.splits option.splits prod.splits)

lemma reachable_run_for_dur:
  assumes "run_for_dur fuel C L F dur E = Some (Inr (r, E'))" and "reachable C L F (net E)"
  shows "reachable C L F (net E')"
proof -
  from assms(1) obtain t n0 n2 xd ds where s: "start_run dur E = Inr (t, n0)"
    and l: "run_loop fuel C L t n0 [] [] = Some (Inr (n2, xd, ds))"
    and f: "finish_run C F E n2 xd = Inr (r, E')"
    by (rule run_for_dur_parts)
  from assms(2) s have "reachable C L F n0" by (rule reachable.started)
  with l have "reachable C L F n2" by (rule reachable_run_loop)
  then show ?thesis using f by (rule reachable.finished)
qed

lemma reachable_env_reset:
  assumes "env_reset fuel C L F tr w E = Some (Inr (obs, E'))"
  shows "reachable C L F (net E')"
proof -
  from assms obtain s w' E3 dur r E5 where
    c: "create_new_links_and_senders F w
          (E\<lparr>steps_taken := 0, net := Network_reset C L F (net E),
             current_trace := trace_reset tr\<rparr>) = Inr (s, w', E3)"
    and run: "run_for_dur fuel C L F dur
                (E3\<lparr>net := Network_init C s w', episodes_run := episodes_run E3 + 1\<rparr>)
              = Some (Inr (r, E5))"
    and E': "net E' = net E5"
    by (auto simp: env_reset_def Let_def split: sum.splits option.splits prod.splits)
  from c obtain sid rt pth dst feats cw hlen dscale where
    "s = Sender_init F sid rt pth dst feats cw hlen dscale"
    by (auto simp: create_new_links_and_senders_def Let_def split: if_splits sum.splits prod.splits)
  then have "reachable C L F (net (E3\<lparr>net := Network_init C s w',
                                      episodes_run := episodes_run E3 + 1\<rparr>))"
    by (simp add: reachable.created)
  from reachable_run_for_dur[OF run this] E' show ?thesis by simp
qed

section \<open>Bytes of a monitor interval\<close>

lemma get_run_data_bytes:
  assumes "get_run_data C now s = Inr mi"
  shows "bytes_sent mi = sent s * BYTES_PER_PACKET C"
    and "bytes_lost mi = lost s * BYTES_PER_PACKET C"
    and "bytes_acked mi = acked s * BYTES_PER_PACKET C
         \<or> bytes_acked mi = (acked s - 1) * BYTES_PER_PACKET C"
  using assms
  by (auto simp: get_run_data_def Let_def split: sum.splits if_splits)

lemma last_history_step:
  assumes "history_step hlen h mi \<noteq> []"
  shows "last (history_step hlen h mi) = mi"
proof -
  let ?xs = "h @ [mi]"
  let ?k = "length ?xs - hlen"
  from assms have "drop ?k ?xs \<noteq> []"
    unfolding history_step_def Let_def .
  then have "?k < length ?xs"
    by (metis drop_eq_Nil not_le)
  then have "last (drop ?k ?xs) = last ?xs"
    by (rule last_drop)
  then show ?thesis
    unfolding history_step_def Let_def by (simp only: last_snoc)
qed

lemma finish_run_last:
  assumes "finish_run C F E n xd = Inr (r, E')"
  shows "\<exists>mi. get_run_data C (cur_time n) (sender0 n) = Inr mi
            \<and> history (sender0 (net E')) \<noteq> [] \<and> last (history (sender0 (net E'))) = mi"
  using assms
  by (auto simp: finish_run_def Let_def record_run_def history_back_def last_history_step
      split: sum.splits if_splits)

lemma dispatch_balance:
  assumes "dispatch C L n xd = Inr (n', xd')"
  shows "flight_balance C (sender0 n') = flight_balance C (sender0 n)"
    and "0 \<le> lost (sender0 n) \<Longrightarrow> 0 \<le> lost (sender0 n')"
  using assms
proof (induction rule: dispatch_cases)
  case (returned e es)
  {
    case 1
    from returned show ?case
      by (cases "returned_call (sender0 n) e")
         (simp_all add: flight_balance_def timeout_def on_packet_lost_def on_packet_acked_def
            Let_def algebra_simps)
  next
    case 2
    with returned show ?case
      by (cases "returned_call (sender0 n) e")
         (simp_all add: timeout_def on_packet_lost_def on_packet_acked_def Let_def)
  }
next
  case (forward e es)
  {
    case 1
    from forward show ?case by (simp add: flight_balance_def)
  next
    case 2
    with forward show ?case by simp
  }
next
  case (send0 e es can)
  {
    case 1
    from send0 show ?case
      by (simp add: flight_balance_def sampled_def on_packet_sent_def algebra_simps)
  next
    case 2
    with send0 show ?case by (simp add: sampled_def on_packet_sent_def)
  }
next
  case (sendk e es)
  {
    case 1
    from sendk show ?case by (simp add: flight_balance_def sampled_def)
  next
    case 2
    with sendk show ?case by (simp add: sampled_def)
  }
qed

lemma start_run_counters:
  assumes "start_run dur E = Inr (t, n0)"
  shows "flight_balance C (sender0 n0) = bytes_in_flight (sender0 (net E))"
    and "lost (sender0 n0) = 0"
  using assms
  by (auto simp: start_run_def Let_def reset_obs_def flight_balance_def split: if_splits)

text \<open>
  Claim C2, as the code has it. The counters of an interval start at zero at the
  \<open>reset_obs\<close> that opens it, while packets of earlier intervals may still be in flight,
  and their ACKs and losses are counted in the interval in which they return. For the
  interval finalized at the end of \<open>run_for_dur\<close> in an episode, with a packet size that
  is not negative: \<open>bytes_acked \<le> bytes_sent + b\<close> and
  \<open>bytes_lost + bytes_acked \<le> bytes_sent + b\<close>, where \<open>b\<close> is the sender's bytes in
  flight when \<open>run_for_dur\<close> was called.
\<close>

theorem interval_bytes_within_sent_and_in_flight:
  assumes "reachable C L F (net E)" and "0 \<le> BYTES_PER_PACKET C"
    and "run_for_dur fuel C L F dur E = Some (Inr (r, E'))"
  shows "history (sender0 (net E')) \<noteq> []
         \<and> bytes_acked (last (history (sender0 (net E'))))
             \<le> bytes_sent (last (history (sender0 (net E'))))
                + bytes_in_flight (sender0 (net E))
         \<and> bytes_lost (last (history (sender0 (net E'))))
             + bytes_acked (last (history (sender0 (net E'))))
             \<le> bytes_sent (last (history (sender0 (net E'))))
                + bytes_in_flight (sender0 (net E))"
proof -
  let ?b = "bytes_in_flight (sender0 (net E))"
  let ?P = "\<lambda>m d. in_flight_ok C m \<and> flight_balance C (sender0 m) = ?b \<and> 0 \<le> lost (sender0 m)"
  from assms(3) obtain t n0 n2 xd ds where s: "start_run dur E = Inr (t, n0)"
    and l: "run_loop fuel C L t n0 [] [] = Some (Inr (n2, xd, ds))"
    and f: "finish_run C F E n2 xd = Inr (r, E')"
    by (rule run_for_dur_parts)
  from assms(1) s have "reachable C L F n0" by (rule reachable.started)
  then have "in_flight_ok C n0" by (rule reachable_in_flight_ok)
  with start_run_counters(1)[OF s, of C] start_run_counters(2)[OF s] have P0: "?P n0 []" by simp
  have "\<exists>m e es. ?P m ds \<and> q m = e # es \<and> loop_break m t e
          \<and> n2 = m\<lparr>cur_time := event_time e\<rparr>"
    by (rule run_loop_rule[where P = ?P, OF l P0])
       (auto intro: in_flight_ok_dispatch simp: dispatch_balance)
  then have n2: "in_flight_ok C n2" "flight_balance C (sender0 n2) = ?b" "0 \<le> lost (sender0 n2)"
    by (auto simp: in_flight_ok_def packets_pending_def)
  let ?s = "sender0 n2"
  from n2(1) obtain k where k: "bytes_in_flight ?s = int k * BYTES_PER_PACKET C"
    by (auto simp: in_flight_ok_def)
  with assms(2) have nonneg: "0 \<le> bytes_in_flight ?s" by simp
  from n2 have bal: "bytes_in_flight ?s - (sent ?s - acked ?s - lost ?s) * BYTES_PER_PACKET C = ?b"
    and lost0: "0 \<le> lost ?s"
    by (simp_all add: flight_balance_def)
  from finish_run_last[OF f] obtain mi where g: "get_run_data C (cur_time n2) ?s = Inr mi"
    and h: "history (sender0 (net E')) \<noteq> []" "last (history (sender0 (net E'))) = mi"
    by blast
  let ?p = "BYTES_PER_PACKET C"
  from bal nonneg have sum: "acked ?s * ?p + lost ?s * ?p \<le> sent ?s * ?p + ?b"
    by (simp add: algebra_simps)
  from lost0 assms(2) have lp: "0 \<le> lost ?s * ?p" by simp
  from get_run_data_bytes(3)[OF g] assms(2) have a: "bytes_acked mi \<le> acked ?s * ?p"
    by (auto simp: algebra_simps)
  from get_run_data_bytes(1,2)[OF g] a sum lp h show ?thesis
    by simp
qed

theorem interval_bytes_within_sent_and_in_flight_witness:
  "reachable ex_constants ex_L ex_obs (net ex_env1_slow)
   \<and> bytes_in_flight (sender0 (net ex_env1_slow)) = 13500
   \<and> bytes_sent (last (history (sender0 (net ex_env2_run)))) = 9000
   \<and> bytes_acked (last (history (sender0 (net ex_env2_run)))) = 16500
   \<and> bytes_lost (last (history (sender0 (net ex_env2_run)))) = 0
   \<and> bytes_lost (last (history (sender0 (net ex_env2_run))))
       + bytes_acked (last (history (sender0 (net ex_env2_run))))
       \<le> bytes_sent (last (history (sender0 (net ex_env2_run))))
          + bytes_in_flight (sender0 (net ex_env1_slow))"
proof -
  have "reachable ex_constants ex_L ex_obs (net ex_env1)"
    using ex_env1_eval by (rule reachable_env_reset)
  then have r: "reachable ex_constants ex_L ex_obs (net ex_env1_slow)"
    by (simp add: ex_env1_slow_def reachable.rate_changed)
  have p: "0 \<le> BYTES_PER_PACKET ex_constants"
    by (simp add: ex_constants_def)
  have "\<exists>x. run_for_dur 40 ex_constants ex_L ex_obs (1001 / 1000) ex_env1_slow = Some (Inr x)"
    by (simp add: ex_env1_slow_def ex_env1_def eval_defs ex_env_defs)
  then have run: "run_for_dur 40 ex_constants ex_L ex_obs (1001 / 1000) ex_env1_slow
               = Some (Inr (fst (returned (run_for_dur 40 ex_constants ex_L ex_obs (1001 / 1000)
                                             ex_env1_slow)), ex_env2_run))"
    by (auto simp: ex_env2_run_def returned_def)
  have "bytes_in_flight (sender0 (net ex_env1_slow)) = 13500"
    by (simp add: ex_env1_slow_def ex_env1_def eval_defs ex_env_defs)
  moreover have "interval_bytes ex_env2_run = (9000, 16500, 0)"
    by (simp add: interval_bytes_def ex_env2_run_def ex_env1_slow_def ex_env1_def eval_defs
        ex_env_defs)
  ultimately have v: "bytes_in_flight (sender0 (net ex_env1_slow)) = 13500"
    "bytes_sent (last (history (sender0 (net ex_env2_run)))) = 9000"
    "bytes_acked (last (history (sender0 (net ex_env2_run)))) = 16500"
    "bytes_lost (last (history (sender0 (net ex_env2_run)))) = 0"
    by (simp_all add: interval_bytes_def)
  from interval_bytes_within_sent_and_in_flight [OF r p run] r v show ?thesis
    by simp
qed

text \<open>
  The claim as written fails. After \<open>reset()\<close> and \<open>step([-1])\<close>, which halves the rate,
  the interval of the step has 6 packets sent and 11 acknowledged, 10 of them sent in the
  interval before.
\<close>

theorem interval_acked_exceeds_sent:
  "env_reset 40 ex_constants ex_L ex_obs ex_trace () ex_env0 = Some (Inr ([0, 0, 0, 1], ex_env1))
   \<and> env_step 40 ex_constants ex_L ex_obs [- 1] ex_env1
       = Some (Inr ([0, 1, 110000, 1], - (2389 / 2400), False, ex_env2))
   \<and> bytes_sent (last (history (sender0 (net ex_env2)))) = 9000
   \<and> bytes_acked (last (history (sender0 (net ex_env2)))) = 16500
   \<and> \<not> bytes_acked (last (history (sender0 (net ex_env2))))
         \<le> bytes_sent (last (history (sender0 (net ex_env2))))"
proof -
  have "env_step 40 ex_constants ex_L ex_obs [- 1] ex_env1
       = Some (Inr ([0, 1, 110000, 1], - (2389 / 2400), False, ex_env2))"
    by (simp add: ex_env2_def ex_env1_def eval_defs ex_env_defs)
  moreover have "interval_bytes ex_env2 = (9000, 16500, 0)"
    by (simp add: interval_bytes_def ex_env2_def ex_env1_def eval_defs ex_env_defs)
  ultimately show ?thesis using ex_env1_eval by (simp add: interval_bytes_def)
qed

section \<open>The order of the queue\<close>

lemma type_rank_eq: "type_rank C a = type_rank C b \<longleftrightarrow> a = b"
  by (cases a; cases b) (auto simp: type_rank_def)

lemma type_rank_less: "type_rank C a < type_rank C b \<longleftrightarrow> event_type_lt C a b"
  by (cases a; cases b) (auto simp: type_rank_def event_type_lt_def)

lemma event_type_lt_irrefl: "\<not> event_type_lt C a a"
  by (simp add: event_type_lt_def)

lemma event_lt_key: "event_lt C a b \<longleftrightarrow> event_key C a < event_key C b"
  by (auto simp: event_lt_def event_key_def less_prod_def' type_rank_eq type_rank_less
      event_type_lt_irrefl less_bool_def)

lemma event_lt_trans: "event_lt C a b \<Longrightarrow> event_lt C b c \<Longrightarrow> event_lt C a c"
  by (simp add: event_lt_key)

lemma not_event_lt_time: "\<not> event_lt C b a \<Longrightarrow> event_time a \<le> event_time b"
  by (auto simp: event_lt_def split: if_splits)

lemma queue_ok_heappush: "queue_ok C es \<Longrightarrow> queue_ok C (heappush C es e)"
proof (induction es)
  case Nil
  then show ?case by (simp add: queue_ok_def)
next
  case (Cons x xs)
  then show ?case
    by (auto simp: queue_ok_def set_heappush event_lt_key)
qed

lemma queue_ok_tl: "queue_ok C (e # es) \<Longrightarrow> queue_ok C es"
  by (simp add: queue_ok_def)

lemma queue_ok_head: "queue_ok C (e # es) \<Longrightarrow> e' \<in> set es \<Longrightarrow> \<not> event_lt C e' e"
  by (simp add: queue_ok_def)

lemma dispatch_config:
  assumes "dispatch C L n xd = Inr (n', xd')"
  shows "rate (sender0 n') = rate (sender0 n)" and "path (sender0 n') = path (sender0 n)"
    and "dest (sender0 n') = dest (sender0 n)" and "use_cwnd (sender0 n') = use_cwnd (sender0 n)"
    and "got_data (sender0 n) \<Longrightarrow> got_data (sender0 n')"
  using assms
proof (induction rule: dispatch_cases)
  case (returned e es)
  {
    case 1 from returned show ?case
      by (cases "returned_call (sender0 n) e")
         (simp_all add: timeout_def on_packet_lost_def on_packet_acked_def Let_def)
  next
    case 2 from returned show ?case
      by (cases "returned_call (sender0 n) e")
         (simp_all add: timeout_def on_packet_lost_def on_packet_acked_def Let_def)
  next
    case 3 from returned show ?case
      by (cases "returned_call (sender0 n) e")
         (simp_all add: timeout_def on_packet_lost_def on_packet_acked_def Let_def)
  next
    case 4 from returned show ?case
      by (cases "returned_call (sender0 n) e")
         (simp_all add: timeout_def on_packet_lost_def on_packet_acked_def Let_def)
  next
    case 5 with returned show ?case
      by (cases "returned_call (sender0 n) e")
         (simp_all add: timeout_def on_packet_lost_def on_packet_acked_def Let_def)
  }
next
  case (forward e es)
  { case 1 from forward show ?case by simp
  next case 2 from forward show ?case by simp
  next case 3 from forward show ?case by simp
  next case 4 from forward show ?case by simp
  next case 5 with forward show ?case by simp }
next
  case (send0 e es can)
  { case 1 from send0 show ?case by (simp add: sampled_def on_packet_sent_def)
  next case 2 from send0 show ?case by (simp add: sampled_def on_packet_sent_def)
  next case 3 from send0 show ?case by (simp add: sampled_def on_packet_sent_def)
  next case 4 from send0 show ?case by (simp add: sampled_def on_packet_sent_def)
  next case 5 with send0 show ?case by (simp add: sampled_def on_packet_sent_def) }
next
  case (sendk e es)
  { case 1 from sendk show ?case by (simp add: sampled_def)
  next case 2 from sendk show ?case by (simp add: sampled_def)
  next case 3 from sendk show ?case by (simp add: sampled_def)
  next case 4 from sendk show ?case by (simp add: sampled_def)
  next case 5 with sendk show ?case by (simp add: sampled_def) }
qed

lemma dispatch_queue_ok:
  assumes "dispatch C L n xd = Inr (n', xd')" and "queue_ok C (q n)"
  shows "queue_ok C (q n')"
  using assms
  by (induction rule: dispatch_cases)
     (auto simp: Let_def intro!: queue_ok_heappush dest: queue_ok_tl)

lemma event_time_forwarded [simp]: "event_time (forwarded e ty lat qd drp) = event_time e + lat"
  by (simp add: forwarded_def)

lemma dispatch_pushed_times:
  assumes "dispatch C L n xd = Inr (n', xd')" and "q n = e # es"
    and "\<forall>l t w. 0 \<le> fst (get_cur_latency L l t w)" and "0 < rate (sender0 n)"
    and "y \<in> set (q n')"
  shows "y \<in> set es \<or> event_time e \<le> event_time y"
  using assms
  by (induction rule: dispatch_cases)
     (auto simp: Let_def set_heappush hop_lat_def next_send_event_def split: if_splits)

lemma start_run_q: "start_run dur E = Inr (t, n') \<Longrightarrow> q n' = q (net E)"
  by (auto simp: start_run_def Let_def split: if_splits)

lemma finish_run_q: "finish_run C F E n xd = Inr (r, E') \<Longrightarrow> q (net E') = q n"
  by (rule finish_run_fields)

lemma reachable_queue_ok: "reachable C L F n \<Longrightarrow> queue_ok C (q n)"
proof (induction rule: reachable.induct)
  case (created sid r pth dst feats cw hlen dscale w)
  show ?case
    by (simp add: Network_init_def queue_initial_packets_def queue_ok_def Let_def)
next
  case (reset n)
  show ?case
    by (simp add: Network_reset_def queue_initial_packets_def queue_ok_def Let_def)
next
  case (started E dur t n')
  then show ?case by (simp add: start_run_q)
next
  case (dispatched n xd n' xd')
  then show ?case by (blast intro: dispatch_queue_ok)
next
  case (finished n E xd r E')
  then show ?case by (simp add: finish_run_q)
qed simp_all

lemma run_loop_times_sorted:
  assumes "run_loop k C L t n xd [] = Some (Inr (n', xd', ds))"
    and "queue_ok C (q n)" and "0 < rate (sender0 n)"
    and lat: "\<forall>l t w. 0 \<le> fst (get_cur_latency L l t w)"
  shows "sorted (map event_time ds)"
proof -
  let ?P = "\<lambda>m (d :: event list). queue_ok C (q m) \<and> 0 < rate (sender0 m) \<and> sorted (map event_time d)
                \<and> (\<forall>x \<in> set d. \<forall>y \<in> set (q m). event_time x \<le> event_time y)"
  have "\<exists>m e es. ?P m ds \<and> q m = e # es \<and> loop_break m t e
          \<and> n' = m\<lparr>cur_time := event_time e\<rparr>"
  proof (rule run_loop_rule[where P = ?P, OF assms(1)])
    from assms(2,3) show "?P n []" by simp
  next
    fix m ys d e es m' ys'
    assume P: "?P m d" and qm: "q m = e # es" and d: "dispatch C L m ys = Inr (m', ys')"
    from P qm have head: "\<forall>y \<in> set es. event_time e \<le> event_time y"
      by (auto dest: queue_ok_head not_event_lt_time)
    have new: "\<forall>y \<in> set (q m'). y \<in> set es \<or> event_time e \<le> event_time y"
      using dispatch_pushed_times[OF d qm lat] P by blast
    from P qm have old: "\<forall>x \<in> set d. event_time x \<le> event_time e"
      by simp
    have "\<forall>x \<in> set (d @ [e]). \<forall>y \<in> set (q m'). event_time x \<le> event_time y"
    proof (intro ballI)
      fix x y assume x: "x \<in> set (d @ [e])" and y: "y \<in> set (q m')"
      from x old have xe: "event_time x \<le> event_time e" by auto
      from y new have "y \<in> set es \<or> event_time e \<le> event_time y" by blast
      with head have "event_time e \<le> event_time y" by blast
      with xe show "event_time x \<le> event_time y" by simp
    qed
    moreover from P old have "sorted (map event_time (d @ [e]))"
      by (simp add: sorted_append)
    moreover from P d have "queue_ok C (q m')" "0 < rate (sender0 m')"
      by (simp_all add: dispatch_queue_ok dispatch_config(1))
    ultimately show "?P m' (d @ [e])" by blast
  qed
  then show ?thesis by blast
qed

text \<open>
  Claim C4, as the code has it. The heap entries are tuples, so Python orders them by time,
  then by event type, next hop, accumulated latency, dropped flag, event id, rto and queue
  delay. In every network an episode can reach the head of the queue, which is dequeued
  next, is the least pending entry in that order; and with link latencies that are not
  negative and a positive rate, the events a run of the loop dispatches are in
  nondecreasing time order.
\<close>

theorem dequeue_order:
  assumes "reachable C L F n"
    and "\<forall>l t w. 0 \<le> fst (get_cur_latency L l t w)"
    and "0 < rate (sender0 n)"
    and "run_loop k C L t n xd [] = Some (Inr (n', xd', ds))"
  shows "sorted (map event_time ds)
         \<and> (\<forall>e es e'. q n = e # es \<and> e' \<in> set es \<longrightarrow>
               event_time e \<le> event_time e' \<and> \<not> event_lt C e' e)"
proof -
  from assms(1) have ok: "queue_ok C (q n)" by (rule reachable_queue_ok)
  from run_loop_times_sorted[OF assms(4) ok assms(3,2)] have "sorted (map event_time ds)" .
  moreover from ok have "\<forall>e es e'. q n = e # es \<and> e' \<in> set es \<longrightarrow>
               event_time e \<le> event_time e' \<and> \<not> event_lt C e' e"
    by (metis queue_ok_head not_event_lt_time)
  ultimately show ?thesis by blast
qed

lemma ex_first_interval_events:
  "map event_time (dispatched_events (run_loop 40 ex_constants ex_L (1 / 100) (net ex_env0) [] []))
     = [0, 1 / 10, 1 / 5, 3 / 10, 2 / 5, 1 / 2, 1 / 2, 3 / 5, 3 / 5, 7 / 10, 7 / 10, 4 / 5, 4 / 5,
        9 / 10, 9 / 10, 1, 1]"
  "map event_id (dispatched_events (run_loop 40 ex_constants ex_L (1 / 100) (net ex_env0) [] []))
     = [0, 1, 2, 3, 4, 0, 5, 1, 6, 2, 7, 3, 8, 4, 9, 5, 0]"
  by (simp_all add: dispatched_events_def eval_defs ex_env_defs)

theorem dequeue_order_witness:
  "reachable ex_constants ex_L ex_obs (net ex_env0)
   \<and> 0 < rate (sender0 (net ex_env0))
   \<and> sorted (map event_time
        (dispatched_events (run_loop 40 ex_constants ex_L (1 / 100) (net ex_env0) [] [])))
   \<and> map event_time
        (dispatched_events (run_loop 40 ex_constants ex_L (1 / 100) (net ex_env0) [] []))
     = [0, 1 / 10, 1 / 5, 3 / 10, 2 / 5, 1 / 2, 1 / 2, 3 / 5, 3 / 5, 7 / 10, 7 / 10, 4 / 5, 4 / 5,
        9 / 10, 9 / 10, 1, 1]"
proof -
  let ?r = "run_loop 40 ex_constants ex_L (1 / 100) (net ex_env0) [] []"
  have r: "reachable ex_constants ex_L ex_obs (net ex_env0)"
    by (simp add: ex_env0_def reachable.created)
  have l: "\<forall>l t w. 0 \<le> fst (get_cur_latency ex_L l t w)"
    by (simp add: ex_L_def ex_links_def)
  have p: "0 < rate (sender0 (net ex_env0))"
    by (simp add: ex_env0_def eval_defs)
  have "\<exists>x. ?r = Some (Inr x)"
    by (simp add: eval_defs ex_env_defs)
  then have run: "?r = Some (Inr (fst (returned ?r), fst (snd (returned ?r)), dispatched_events ?r))"
    by (auto simp: dispatched_events_def returned_def)
  from dequeue_order [OF r l p run] r p ex_first_interval_events(1) show ?thesis
    by simp
qed

text \<open>
  The claim as written fails. In the first interval after construction (rate 10, each hop
  500 ms) the last two events dispatched both have time 1: the ACK of packet 5 at hop 1,
  then the ACK of packet 0 at hop 2, which has the smaller event id and was pushed earlier.
\<close>

theorem equal_time_not_in_id_order:
  "map event_time (dispatched_events (run_loop 40 ex_constants ex_L (1 / 100) (net ex_env0) [] []))
     = [0, 1 / 10, 1 / 5, 3 / 10, 2 / 5, 1 / 2, 1 / 2, 3 / 5, 3 / 5, 7 / 10, 7 / 10, 4 / 5, 4 / 5,
        9 / 10, 9 / 10, 1, 1]
   \<and> map event_id (dispatched_events (run_loop 40 ex_constants ex_L (1 / 100) (net ex_env0) [] []))
     = [0, 1, 2, 3, 4, 0, 5, 1, 6, 2, 7, 3, 8, 4, 9, 5, 0]"
  using ex_first_interval_events by simp

section \<open>The throughput estimate\<close>

lemma dispatch_tput:
  assumes "dispatch C L n xd = Inr (n', xd')"
  shows "start_stage (sender0 n') = start_stage (sender0 n)
         \<and> recv_rate_cache n' = recv_rate_cache n"
  using assms
proof (induction rule: dispatch_cases)
  case (returned e es)
  then show ?case
    by (cases "returned_call (sender0 n) e")
       (simp_all add: timeout_def on_packet_lost_def on_packet_acked_def Let_def)
next
  case (send0 e es can)
  then show ?case
    by (simp add: sampled_def on_packet_sent_def)
qed (simp_all add: sampled_def)

lemma run_loop_tput:
  assumes "run_loop k C L t n xd ds = Some (Inr (n', xd', ds'))"
  shows "start_stage (sender0 n') = start_stage (sender0 n)
         \<and> recv_rate_cache n' = recv_rate_cache n"
proof -
  let ?P = "\<lambda>m (d :: event list). start_stage (sender0 m) = start_stage (sender0 n)
              \<and> recv_rate_cache m = recv_rate_cache n"
  have "\<exists>m e es. ?P m ds' \<and> q m = e # es \<and> loop_break m t e
          \<and> n' = m\<lparr>cur_time := event_time e\<rparr>"
    by (rule run_loop_rule[where P = ?P, OF assms]) (auto dest: dispatch_tput)
  then show ?thesis by auto
qed

lemma start_run_tput:
  assumes "start_run dur E = Inr (t, n0)"
  shows "start_stage (sender0 n0)
           = (start_stage (sender0 (net E)) \<and> lat_diff (sender0 (net E)) = 0)"
    and "recv_rate_cache n0 = recv_rate_cache (net E)"
  using assms by (auto simp: start_run_def Let_def reset_obs_def split: if_splits)

lemma finish_run_tput:
  assumes "finish_run C F E n xd = Inr (r, E')"
  shows "recv_rate_cache (net E')
           = (if length (recv_rate_cache n) \<ge> 6
              then tl (recv_rate_cache n @ [recv_rate (sender0 (net E'))])
              else recv_rate_cache n @ [recv_rate (sender0 (net E'))])"
    and "max_tput (sender0 (net E')) = py_max (recv_rate_cache (net E'))"
    and "start_stage (sender0 (net E'))
           = (start_stage (sender0 n) \<and> lat_diff (sender0 (net E')) = 0)"
  using assms
  by (auto simp: finish_run_def Let_def record_run_def split: sum.splits if_splits)

text \<open>
  Claim C6, as the code has it. Every \<open>run_for_dur\<close> that returns appends the receive rate
  of its interval to the cache, keeps the last 6 entries, and sets \<open>max_tput\<close> to the
  maximum of the cache, in the bootstrap phase and after it alike; the sender is in the
  bootstrap phase afterwards exactly when it was before and the latency change is zero both
  before and after the interval.
\<close>

theorem max_tput_is_cache_maximum:
  assumes "run_for_dur fuel C L F dur E = Some (Inr (r, E'))"
  shows "recv_rate_cache (net E')
           = (if length (recv_rate_cache (net E)) \<ge> 6
              then tl (recv_rate_cache (net E) @ [recv_rate (sender0 (net E'))])
              else recv_rate_cache (net E) @ [recv_rate (sender0 (net E'))])
         \<and> max_tput (sender0 (net E')) = py_max (recv_rate_cache (net E'))
         \<and> start_stage (sender0 (net E'))
             = (start_stage (sender0 (net E)) \<and> lat_diff (sender0 (net E)) = 0
                \<and> lat_diff (sender0 (net E')) = 0)"
proof -
  from assms obtain t n0 n2 xd ds where s: "start_run dur E = Inr (t, n0)"
    and l: "run_loop fuel C L t n0 [] [] = Some (Inr (n2, xd, ds))"
    and f: "finish_run C F E n2 xd = Inr (r, E')"
    by (rule run_for_dur_parts)
  from run_loop_tput[OF l] start_run_tput[OF s]
  have "start_stage (sender0 n2)
          = (start_stage (sender0 (net E)) \<and> lat_diff (sender0 (net E)) = 0)"
    and "recv_rate_cache n2 = recv_rate_cache (net E)"
    by simp_all
  with finish_run_tput[OF f] show ?thesis by simp
qed

lemma ex_step2_tput:
  "tput_state ex_step2 = (False, 1 / 4, [0, 91428571 / 1000], 91428571 / 1000)"
  by (simp add: tput_state_def ex_step2_def ex_step1_def eval_defs ex_env0_def ex_trace_step_def
      ex_L_step_def ex_links_def ex_constants_def ex_obs_def ex_get_def zero_mi_def)

lemma ex_step3_tput:
  "\<exists>E'. run_for_dur 40 ex_constants ex_L_step ex_obs (4129 / 4000) ex_step2
            = Some (Inr (- (28669 / 20700), E'))
     \<and> tput_state E' = (False, 1 / 4, [0, 91428571 / 1000, 93913043 / 1000], 93913043 / 1000)"
  by (simp add: tput_state_def ex_step2_def ex_step1_def eval_defs ex_env0_def ex_trace_step_def
      ex_L_step_def ex_links_def ex_constants_def ex_obs_def ex_get_def zero_mi_def)

lemma ex_step3_run:
  "run_for_dur 40 ex_constants ex_L_step ex_obs (4129 / 4000) ex_step2
     = Some (Inr (- (28669 / 20700), ex_step3))"
  "tput_state ex_step3 = (False, 1 / 4, [0, 91428571 / 1000, 93913043 / 1000], 93913043 / 1000)"
  using ex_step3_tput by (auto simp: ex_step3_def returned_def)

theorem max_tput_is_cache_maximum_witness:
  "run_for_dur 40 ex_constants ex_L_step ex_obs (4129 / 4000) ex_step2
     = Some (Inr (- (28669 / 20700), ex_step3))
   \<and> recv_rate_cache (net ex_step2) = [0, 91428571 / 1000]
   \<and> recv_rate_cache (net ex_step3) = [0, 91428571 / 1000, 93913043 / 1000]
   \<and> max_tput (sender0 (net ex_step3)) = py_max (recv_rate_cache (net ex_step3))
   \<and> max_tput (sender0 (net ex_step3)) = 93913043 / 1000
   \<and> \<not> start_stage (sender0 (net ex_step3))"
  using max_tput_is_cache_maximum [OF ex_step3_run(1)] ex_step3_run ex_step2_tput
  by (simp add: tput_state_def)

text \<open>
  The claim as written fails. On a trace whose delay rises at 1.25 s, the interval of the
  first \<open>step\<close> after \<open>reset()\<close> measures a latency increase of 250 ms and leaves the
  bootstrap phase with \<open>max_tput = 91428.571\<close>; the next \<open>run_for_dur\<close>, with no reset in
  between, raises \<open>max_tput\<close> to 93913.043.
\<close>

theorem max_tput_changes_after_latency_increase:
  "tput_state ex_step2 = (False, 1 / 4, [0, 91428571 / 1000], 91428571 / 1000)
   \<and> run_for_dur 40 ex_constants ex_L_step ex_obs (4129 / 4000) ex_step2
       = Some (Inr (- (28669 / 20700), ex_step3))
   \<and> tput_state ex_step3
       = (False, 1 / 4, [0, 91428571 / 1000, 93913043 / 1000], 93913043 / 1000)
   \<and> max_tput (sender0 (net ex_step3)) \<noteq> max_tput (sender0 (net ex_step2))"
  using ex_step2_tput ex_step3_run by (simp add: tput_state_def)

section \<open>Where the loop stops\<close>

lemma sends_left_next:
  assumes "0 < r" and "t < end_time"
  shows "sends_left r end_time t = Suc (sends_left r end_time (t + 1 / r))"
proof -
  define c where "c = \<lceil>(end_time - t) * r\<rceil>"
  from assms have "0 < (end_time - t) * r" by simp
  then have pos: "0 < c" by (simp add: c_def)
  from assms(1) have "(end_time - (t + 1 / r)) * r = (end_time - t) * r - 1"
    by (simp add: algebra_simps)
  then have "\<lceil>(end_time - (t + 1 / r)) * r\<rceil> = c - 1"
    by (simp add: c_def)
  moreover from pos have "nat c = Suc (nat (c - 1))" by arith
  ultimately show ?thesis by (simp add: sends_left_def c_def)
qed

lemma dispatch_loop_ready:
  assumes "loop_ready C n" and "\<forall>l t w. fst (get_bandwidth L l t w) \<noteq> 0"
  shows "\<exists>n' xd'. dispatch C L n xd = Inr (n', xd')"
proof -
  from assms(1) obtain e es where qn: "q n = e # es"
    by (cases "q n") (auto simp: loop_ready_def queue_shape_def)
  from assms(1) qn have shape: "event_type e = EVENT_TYPE_SEND \<longrightarrow> next_hop e = 0"
      "event_type e = EVENT_TYPE_ACK \<longrightarrow> next_hop e \<le> length (path (sender0 n))"
    by (simp_all add: loop_ready_def queue_shape_def)
  show ?thesis
  proof (cases "event_type e")
    case EVENT_TYPE_ACK
    with shape have h: "next_hop e \<le> length (path (sender0 n))" by simp
    show ?thesis
    proof (cases "next_hop e = length (path (sender0 n))")
      case True
      with qn EVENT_TYPE_ACK show ?thesis by (simp add: dispatch_returned)
    next
      case False
      with qn EVENT_TYPE_ACK h show ?thesis by (simp add: dispatch_forward)
    qed
  next
    case EVENT_TYPE_SEND
    with shape have h0: "next_hop e = 0" by simp
    from assms(1) have "\<exists>can. can_send_packet C (sender0 n) = Inr can"
      by (auto simp: can_send_packet_def loop_ready_def)
    then obtain can where "can_send_packet C (sender0 n) = Inr can" by blast
    with qn EVENT_TYPE_SEND h0 assms show ?thesis
      by (simp add: dispatch_send0 loop_ready_def hop_bw_def)
  qed
qed

lemma dispatch_queue_shape:
  assumes "dispatch C L n xd = Inr (n', xd')" and "queue_shape n"
    and "dest (sender0 n) = 0" and "path (sender0 n) \<noteq> []"
  shows "queue_shape n'"
  using assms
proof (induction rule: dispatch_cases)
  case (returned e es)
  then show ?case
    by (cases "returned_call (sender0 n) e")
       (auto simp: queue_shape_def timeout_def on_packet_lost_def on_packet_acked_def Let_def)
next
  case (forward e es)
  then show ?case
    by (auto simp: queue_shape_def set_heappush forwarded_def)
next
  case (send0 e es can)
  then show ?case
    by (auto simp: queue_shape_def set_heappush forwarded_def next_send_event_def Let_def
        sampled_def on_packet_sent_def Suc_le_eq)
next
  case (sendk e es)
  then show ?case by (auto simp: queue_shape_def)
qed

lemma dispatch_keeps_loop_ready:
  assumes "dispatch C L n xd = Inr (n', xd')" and "loop_ready C n"
  shows "loop_ready C n'"
  using assms dispatch_config[OF assms(1)] dispatch_queue_shape[OF assms(1)]
  by (simp add: loop_ready_def)

lemma dispatch_queue_weight:
  assumes "dispatch C L n xd = Inr (n', xd')" and "loop_ready C n"
    and "q n = e # es" and "\<not> loop_break n end_time e"
  shows "queue_weight end_time n' < queue_weight end_time n"
proof -
  let ?len = "length (path (sender0 n))"
  let ?r = "rate (sender0 n)"
  let ?w = "event_weight ?len ?r end_time"
  from dispatch_config[OF assms(1)]
  have W': "queue_weight end_time n' = sum_list (map ?w (q n'))"
    by (simp add: queue_weight_def)
  from assms(3) have W: "queue_weight end_time n = ?w e + sum_list (map ?w es)"
    by (simp add: queue_weight_def)
  from assms(2) have cfg: "got_data (sender0 n)" "0 < ?r" "dest (sender0 n) = 0" "0 < ?len"
    by (simp_all add: loop_ready_def)
  from assms(2,3) have shape: "event_type e = EVENT_TYPE_SEND \<longrightarrow> next_hop e = 0"
    by (simp add: loop_ready_def queue_shape_def)
  from assms(1) show ?thesis
  proof (induction rule: dispatch_cases)
    case (returned e1 es1)
    with assms(3) W W' show ?case
      by (simp add: event_weight_def)
  next
    case (forward e1 es1)
    with assms(3) W W' show ?case
      by (simp add: event_weight_def sum_list_heappush forwarded_def)
  next
    case (send0 e1 es1 can)
    with assms(3) have e1: "e1 = e" "es1 = es" by simp_all
    from send0 e1 assms(4) cfg(1) have "event_time e < end_time"
      by (simp add: loop_break_def)
    from sends_left_next[OF cfg(2) this]
    have sl: "sends_left ?r end_time (event_time e)
               = Suc (sends_left ?r end_time (event_time e + 1 / ?r))" .
    have we: "?w e = ?len + 1 + sends_left ?r end_time (event_time e + 1 / ?r) * (?len + 1)"
      using send0 e1 sl by (simp add: event_weight_def)
    have wn: "?w (next_send_event (n\<lparr>cur_time := event_time e\<rparr>))
               = sends_left ?r end_time (event_time e + 1 / ?r) * (?len + 1)"
      by (simp add: event_weight_def next_send_event_def)
    have wf: "?w (forwarded e EVENT_TYPE_ACK (fst (hop_lat L n e)) (fst (hop_qd L n e))
                   (\<not> fst (hop_enter L n e))) = ?len"
      using send0 e1 by (simp add: event_weight_def forwarded_def)
    from send0 e1 cfg(3) have "q n' = (if can
         then heappush C (heappush C es (next_send_event (n\<lparr>cur_time := event_time e\<rparr>)))
                (forwarded e EVENT_TYPE_ACK (fst (hop_lat L n e)) (fst (hop_qd L n e))
                   (\<not> fst (hop_enter L n e)))
         else heappush C es (next_send_event (n\<lparr>cur_time := event_time e\<rparr>)))"
      by (simp add: Let_def)
    then have "sum_list (map ?w (q n'))
                 \<le> ?len + sends_left ?r end_time (event_time e + 1 / ?r) * (?len + 1)
                    + sum_list (map ?w es)"
      using wn wf by (simp add: sum_list_heappush)
    with W W' we show ?case by simp
  next
    case (sendk e1 es1)
    with assms(3) shape show ?case by simp
  qed
qed

lemma run_loop_returns:
  assumes "loop_ready C n" and "\<forall>l t w. fst (get_bandwidth L l t w) \<noteq> 0"
    and "queue_weight end_time n < k"
  shows "\<exists>n' xd' ds'. run_loop k C L end_time n xd ds = Some (Inr (n', xd', ds'))"
  using assms(1,3)
proof (induction k arbitrary: n xd ds)
  case 0
  then show ?case by simp
next
  case (Suc k)
  from Suc.prems(1) obtain e es where qn: "q n = e # es"
    by (cases "q n") (auto simp: loop_ready_def queue_shape_def)
  show ?case
  proof (cases "loop_break n end_time e")
    case True
    with qn show ?thesis by simp
  next
    case False
    from dispatch_loop_ready[OF Suc.prems(1) assms(2)]
    obtain m ys where d: "dispatch C L n xd = Inr (m, ys)" by blast
    from d Suc.prems(1) have rdy: "loop_ready C m" by (rule dispatch_keeps_loop_ready)
    from dispatch_queue_weight[OF d Suc.prems(1) qn False] Suc.prems(2)
    have "queue_weight end_time m < k" by simp
    from Suc.IH[OF rdy this, of ys "ds @ [e]"] qn False d show ?thesis by simp
  qed
qed

lemma start_run_config:
  assumes "start_run dur E = Inr (t, n0)"
  shows "t = min (cur_time (net E) + dur) (last (timestamps (current_trace E)))"
    and "q n0 = q (net E)" and "path (sender0 n0) = path (sender0 (net E))"
    and "dest (sender0 n0) = dest (sender0 (net E))"
    and "rate (sender0 n0) = rate (sender0 (net E))"
    and "use_cwnd (sender0 n0) = use_cwnd (sender0 (net E))"
    and "got_data (sender0 n0) = got_data (sender0 (net E))"
  using assms by (auto simp: start_run_def Let_def reset_obs_def split: if_splits)

lemma finish_run_config:
  assumes "finish_run C F E n xd = Inr (r, E')"
  shows "q (net E') = q n" and "cur_time (net E') = cur_time n"
    and "path (sender0 (net E')) = path (sender0 n)"
    and "dest (sender0 (net E')) = dest (sender0 n)"
  using assms
  by (auto simp: finish_run_def Let_def record_run_def split: sum.splits if_splits)

lemma rate_delta_config:
  "path (apply_rate_delta C a s) = path s" "dest (apply_rate_delta C a s) = dest s"
  by (simp_all add: apply_rate_delta_def set_rate_def Let_def)

lemma cwnd_delta_config:
  "path (apply_cwnd_delta a s) = path s" "dest (apply_cwnd_delta a s) = dest s"
  by (simp_all add: apply_cwnd_delta_def set_cwnd_def Let_def)

lemma reachable_queue_shape:
  "reachable C L F n \<Longrightarrow> dest (sender0 n) = 0 \<and> path (sender0 n) \<noteq> [] \<longrightarrow> queue_shape n"
proof (induction rule: reachable.induct)
  case (created sid r pth dst feats cw hlen dscale w)
  show ?case
    by (simp add: Network_init_def queue_initial_packets_def queue_shape_def Let_def
        initial_send_event_def)
next
  case (reset n)
  show ?case
    by (simp add: Network_reset_def queue_initial_packets_def queue_shape_def Let_def
        initial_send_event_def)
next
  case (started E dur t n')
  then show ?case by (simp add: start_run_config queue_shape_def)
next
  case (dispatched n xd n' xd')
  from dispatched.hyps(2) dispatched.IH dispatch_config(2,3)[OF dispatched.hyps(2)]
  show ?case by (auto intro: dispatch_queue_shape)
next
  case (stopped n t)
  then show ?case by (simp add: queue_shape_def)
next
  case (finished n E xd r E')
  then show ?case by (simp add: finish_run_config queue_shape_def)
next
  case (rate_changed n a)
  then show ?case by (simp add: rate_delta_config queue_shape_def)
next
  case (cwnd_changed n a)
  then show ?case by (simp add: cwnd_delta_config queue_shape_def)
qed

lemma run_loop_stops:
  assumes "run_loop k C L t n xd [] = Some (Inr (n', xd', ds))" and "loop_ready C n"
  shows "\<exists>e es. q n' = e # es \<and> event_type e = EVENT_TYPE_SEND \<and> next_hop e = 0
           \<and> t \<le> event_time e \<and> cur_time n' = event_time e
           \<and> (\<forall>d \<in> set ds. \<not> (event_type d = EVENT_TYPE_SEND \<and> t \<le> event_time d))"
proof -
  let ?P = "\<lambda>m (d :: event list). loop_ready C m
              \<and> (\<forall>x \<in> set d. \<not> (event_type x = EVENT_TYPE_SEND \<and> t \<le> event_time x))"
  have "\<exists>m e es. ?P m ds \<and> q m = e # es \<and> loop_break m t e
          \<and> n' = m\<lparr>cur_time := event_time e\<rparr>"
  proof (rule run_loop_rule[where P = ?P, OF assms(1)])
    from assms(2) show "?P n []" by simp
  next
    fix m ys d e es m' ys'
    assume P: "?P m d" and qm: "q m = e # es" and nb: "\<not> loop_break m t e"
      and d: "dispatch C L m ys = Inr (m', ys')"
    from P nb have "\<not> (event_type e = EVENT_TYPE_SEND \<and> t \<le> event_time e)"
      by (auto simp: loop_break_def loop_ready_def)
    with P dispatch_keeps_loop_ready[OF d] show "?P m' (d @ [e])" by auto
  qed
  then obtain m e es where m: "loop_ready C m" "q m = e # es" "loop_break m t e"
      "n' = m\<lparr>cur_time := event_time e\<rparr>"
    and ds: "\<forall>d \<in> set ds. \<not> (event_type d = EVENT_TYPE_SEND \<and> t \<le> event_time d)"
    by blast
  from m(1,2,3) have "event_type e = EVENT_TYPE_SEND" "t \<le> event_time e" "next_hop e = 0"
    by (auto simp: loop_break_def loop_ready_def queue_shape_def)
  with m(2,4) ds show ?thesis by simp
qed

text \<open>
  Claim C3. For a flow as the environment builds it (destination hop 0, a path that is not
  empty) with a positive rate, links whose bandwidth is not 0 and a trace that has a
  timestamp: when \<open>run_for_dur\<close> is called in an episode after the first ACK, the loop
  returns, given enough fuel, and raises nothing. The end time is
  \<open>min (cur_time + dur) (last timestamps)\<close>; the event left at the head of the queue, the
  least pending one in the order of the queue, is a SEND event at hop 0 at or after the end
  time; the clock is set to its time; and none of the events dispatched before was a SEND
  event at or after the end time. \<open>run_for_dur\<close> then goes on from that network.
\<close>

theorem run_for_dur_stops_at_late_send:
  assumes "reachable C L F (net E)" and "got_data (sender0 (net E))"
    and "dest (sender0 (net E)) = 0" and "path (sender0 (net E)) \<noteq> []"
    and "0 < rate (sender0 (net E))"
    and "use_cwnd (sender0 (net E)) \<longrightarrow> BYTES_PER_PACKET C \<noteq> 0"
    and "\<forall>l t w. fst (get_bandwidth L l t w) \<noteq> 0"
    and "timestamps (current_trace E) \<noteq> []"
  shows "\<exists>n0 fuel0. \<forall>fuel \<ge> fuel0. \<exists>n' xd ds e es.
           start_run dur E
             = Inr (min (cur_time (net E) + dur) (last (timestamps (current_trace E))), n0)
           \<and> run_loop fuel C L (min (cur_time (net E) + dur) (last (timestamps (current_trace E))))
                n0 [] [] = Some (Inr (n', xd, ds))
           \<and> run_for_dur fuel C L F dur E = Some (finish_run C F E n' xd)
           \<and> q n' = e # es \<and> event_type e = EVENT_TYPE_SEND \<and> next_hop e = 0
           \<and> min (cur_time (net E) + dur) (last (timestamps (current_trace E))) \<le> event_time e
           \<and> cur_time n' = event_time e
           \<and> (\<forall>x \<in> set es. \<not> event_lt C x e)
           \<and> (\<forall>d \<in> set ds. \<not> (event_type d = EVENT_TYPE_SEND
                  \<and> min (cur_time (net E) + dur) (last (timestamps (current_trace E)))
                      \<le> event_time d))"
proof -
  let ?t = "min (cur_time (net E) + dur) (last (timestamps (current_trace E)))"
  from assms(8) obtain n0 where s: "start_run dur E = Inr (?t, n0)"
    by (auto simp: start_run_def Let_def)
  from assms(1) s have r0: "reachable C L F n0" by (rule reachable.started)
  from assms(1,3,4) have "queue_shape (net E)"
    by (simp add: reachable_queue_shape)
  with start_run_config(2-7)[OF s] assms(2-6) have rdy: "loop_ready C n0"
    by (simp add: loop_ready_def queue_shape_def)
  show ?thesis
  proof (rule exI[of _ n0], rule exI[of _ "Suc (queue_weight ?t n0)"], intro allI impI)
    fix fuel assume "Suc (queue_weight ?t n0) \<le> fuel"
    then have "queue_weight ?t n0 < fuel" by simp
    from run_loop_returns[OF rdy assms(7) this, of "[]" "[]"]
    obtain n' xd ds where l: "run_loop fuel C L ?t n0 [] [] = Some (Inr (n', xd, ds))"
      by blast
    from run_loop_stops[OF l rdy] obtain e es where
      st: "q n' = e # es" "event_type e = EVENT_TYPE_SEND" "next_hop e = 0"
        "?t \<le> event_time e" "cur_time n' = event_time e"
        "\<forall>d \<in> set ds. \<not> (event_type d = EVENT_TYPE_SEND \<and> ?t \<le> event_time d)"
      by blast
    from l r0 have "reachable C L F n'" by (rule reachable_run_loop)
    then have "queue_ok C (q n')" by (rule reachable_queue_ok)
    with st(1) have least: "\<forall>x \<in> set es. \<not> event_lt C x e"
      by (simp add: queue_ok_def)
    from s l have "run_for_dur fuel C L F dur E = Some (finish_run C F E n' xd)"
      by (simp add: run_for_dur_def)
    with s l st least
    show "\<exists>n' xd ds e es.
           start_run dur E = Inr (?t, n0)
           \<and> run_loop fuel C L ?t n0 [] [] = Some (Inr (n', xd, ds))
           \<and> run_for_dur fuel C L F dur E = Some (finish_run C F E n' xd)
           \<and> q n' = e # es \<and> event_type e = EVENT_TYPE_SEND \<and> next_hop e = 0
           \<and> ?t \<le> event_time e \<and> cur_time n' = event_time e
           \<and> (\<forall>x \<in> set es. \<not> event_lt C x e)
           \<and> (\<forall>d \<in> set ds. \<not> (event_type d = EVENT_TYPE_SEND \<and> ?t \<le> event_time d))"
      by blast
  qed
qed

lemma ex_env1_flow: "flow_state ex_env1 = (True, 0, [0, 1], 10, False, 1, [30])"
  by (simp add: flow_state_def ex_env1_def eval_defs ex_env_defs)

theorem run_for_dur_stops_at_late_send_witness:
  "reachable ex_constants ex_L ex_obs (net ex_env1)
   \<and> flow_state ex_env1 = (True, 0, [0, 1], 10, False, 1, [30])
   \<and> (\<exists>n0 fuel0. \<forall>fuel \<ge> fuel0. \<exists>n' xd ds e es.
           start_run (1 / 4) ex_env1 = Inr (5 / 4, n0)
           \<and> run_loop fuel ex_constants ex_L (5 / 4) n0 [] [] = Some (Inr (n', xd, ds))
           \<and> run_for_dur fuel ex_constants ex_L ex_obs (1 / 4) ex_env1
               = Some (finish_run ex_constants ex_obs ex_env1 n' xd)
           \<and> q n' = e # es \<and> event_type e = EVENT_TYPE_SEND \<and> next_hop e = 0
           \<and> 5 / 4 \<le> event_time e \<and> cur_time n' = event_time e
           \<and> (\<forall>x \<in> set es. \<not> event_lt ex_constants x e)
           \<and> (\<forall>d \<in> set ds. \<not> (event_type d = EVENT_TYPE_SEND \<and> 5 / 4 \<le> event_time d)))"
proof -
  have r: "reachable ex_constants ex_L ex_obs (net ex_env1)"
    using ex_env1_eval by (rule reachable_env_reset)
  from ex_env1_flow have f: "got_data (sender0 (net ex_env1))" "dest (sender0 (net ex_env1)) = 0"
    "path (sender0 (net ex_env1)) \<noteq> []" "0 < rate (sender0 (net ex_env1))"
    "use_cwnd (sender0 (net ex_env1)) \<longrightarrow> BYTES_PER_PACKET ex_constants \<noteq> 0"
    "timestamps (current_trace ex_env1) \<noteq> []"
    by (simp_all add: flow_state_def)
  from ex_env1_flow have t: "min (cur_time (net ex_env1) + 1 / 4)
      (last (timestamps (current_trace ex_env1))) = 5 / 4"
    by (simp add: flow_state_def)
  have b: "\<forall>l t w. fst (get_bandwidth ex_L l t w) \<noteq> 0"
    by (simp add: ex_L_def ex_links_def)
  from run_for_dur_stops_at_late_send [OF r f(1-5) b f(6), of "1 / 4"] r ex_env1_flow
  show ?thesis unfolding t by blast
qed

end
